theory Spec2Isabelle
  imports Main "HOL-Library.Word" "HOL-Library.AList"
begin

unbundle bit_operations_syntax

section \<open>Machine integers\<close>

type_synonym u8 = "8 word"
type_synonym u16 = "16 word"
type_synonym u32 = "32 word"
type_synonym u64 = "64 word"

section \<open>message.h\<close>

text \<open>
  The enumerations of \<^verbatim>\<open>message.h\<close> are \<^verbatim>\<open>enum class : uint8_t\<close>. A record that
  arrives from the network is read through a \<^verbatim>\<open>reinterpret_cast\<close>, so the tag field can
  hold any byte; the tags are therefore bytes, with the enumerators as named constants.
\<close>

definition ORDER_NEW :: u8 where "ORDER_NEW = 0x01"
definition ORDER_CANCEL :: u8 where "ORDER_CANCEL = 0x02"
definition ORDER_REPLACE :: u8 where "ORDER_REPLACE = 0x03"
definition ORDER_FILL :: u8 where "ORDER_FILL = 0x04"
definition ORDER_REJECT :: u8 where "ORDER_REJECT = 0x05"
definition MARKET_DATA :: u8 where "MARKET_DATA = 0x06"
definition HEARTBEAT :: u8 where "HEARTBEAT = 0x07"
definition LOGIN :: u8 where "LOGIN = 0x08"
definition LOGOUT :: u8 where "LOGOUT = 0x09"
definition ERROR :: u8 where "ERROR = 0xFF"

definition PENDING :: u8 where "PENDING = 0x01"
definition PROCESSED :: u8 where "PROCESSED = 0x02"
definition COMPLETED :: u8 where "COMPLETED = 0x03"
definition FAILED :: u8 where "FAILED = 0x04"

text \<open>The enumerated set of \<^verbatim>\<open>MessageType\<close>.\<close>

definition message_types :: "u8 list" where
  "message_types = [ORDER_NEW, ORDER_CANCEL, ORDER_REPLACE, ORDER_FILL, ORDER_REJECT,
                    MARKET_DATA, HEARTBEAT, LOGIN, LOGOUT, ERROR]"

text \<open>
  \<^verbatim>\<open>struct Message\<close>. The payload is a \<^verbatim>\<open>std::array<uint8_t, 1024>\<close>, here a list of
  bytes; \<^verbatim>\<open>payload.size()\<close> is the constant 1024 and \<^verbatim>\<open>payload.fill(0)\<close> writes all
  1024 elements.
\<close>

record message =
  message_id :: u64
  timestamp :: u64
  sequence_number :: u32
  message_type :: u8
  status :: u8
  source_id :: u32
  destination_id :: u32
  payload_size :: u32
  payload :: "u8 list"

definition payload_capacity :: nat where
  "payload_capacity = 1024"

definition Message :: message where
  "Message = \<lparr>message_id = 0, timestamp = 0, sequence_number = 0,
              message_type = HEARTBEAT, status = PENDING,
              source_id = 0, destination_id = 0, payload_size = 0,
              payload = replicate payload_capacity 0\<rparr>"

definition is_valid :: "message \<Rightarrow> bool" where
  "is_valid m \<longleftrightarrow>
     message_id m \<noteq> 0 \<and> timestamp m \<noteq> 0 \<and> unat (payload_size m) \<le> payload_capacity"

definition clear :: "message \<Rightarrow> message" where
  "clear m = m\<lparr>message_id := 0,
               timestamp := 0,
               sequence_number := 0,
               message_type := HEARTBEAT,
               status := PENDING,
               source_id := 0,
               destination_id := 0,
               payload_size := 0,
               payload := replicate payload_capacity 0\<rparr>"

section \<open>ultra_hft_server.h\<close>

text \<open>
  Both servers use the same member names. The members of the classes of namespace
  \<^verbatim>\<open>ultra_hft\<close> carry the prefix \<open>u_\<close> where they would clash with those of namespace
  \<^verbatim>\<open>hft\<close>, and the member functions of the two servers carry the prefixes
  \<open>ultra_\<close> and \<open>hft_\<close>. A member name loses its trailing underscore
  (\<^verbatim>\<open>running_\<close> is \<open>running\<close>).
\<close>

subsection \<open>LockFreeRingBuffer\<close>

text \<open>
  \<^verbatim>\<open>LockFreeRingBuffer<T, SIZE>\<close>: the array \<^verbatim>\<open>buffer_\<close> of \<^verbatim>\<open>SIZE\<close> elements and the
  two indices, of type \<^verbatim>\<open>size_t\<close> (64 bits). \<^verbatim>\<open>SIZE\<close> is the length of the array. A
  call of \<open>push\<close> or \<open>pop\<close> is taken as one step; the memory orders of the atomic
  loads and stores are not part of the embedding.

  \<open>pop\<close> returns \<open>None\<close> where the source returns \<^verbatim>\<open>false\<close> and leaves \<^verbatim>\<open>item\<close> as it
  was, and \<open>Some x\<close> where it returns \<^verbatim>\<open>true\<close> with \<^verbatim>\<open>item = x\<close>.
\<close>

record 'a ring =
  buffer :: "'a list"
  head :: u64
  tail :: u64

definition SIZE :: "'a ring \<Rightarrow> nat" where
  "SIZE r = length (buffer r)"

definition MASK :: "'a ring \<Rightarrow> u64" where
  "MASK r = of_nat (SIZE r) - 1"

text \<open>The default constructor: both indices 0, the array with whatever it holds.\<close>

definition LockFreeRingBuffer :: "'a list \<Rightarrow> 'a ring" where
  "LockFreeRingBuffer xs = \<lparr>buffer = xs, head = 0, tail = 0\<rparr>"

definition push :: "'a \<Rightarrow> 'a ring \<Rightarrow> bool \<times> 'a ring" where
  "push item r =
     (let current_tail = tail r;
          next_tail = (current_tail + 1) AND MASK r
      in if next_tail = head r then (False, r)
         else (True, r\<lparr>buffer := (buffer r)[unat current_tail := item],
                        tail := next_tail\<rparr>))"

definition pop :: "'a ring \<Rightarrow> 'a option \<times> 'a ring" where
  "pop r =
     (let current_head = head r
      in if current_head = tail r then (None, r)
         else (Some (buffer r ! unat current_head),
               r\<lparr>head := (current_head + 1) AND MASK r\<rparr>))"

definition empty_ring :: "'a ring \<Rightarrow> bool" where
  "empty_ring r \<longleftrightarrow> head r = tail r"

definition full_ring :: "'a ring \<Rightarrow> bool" where
  "full_ring r \<longleftrightarrow> (let next_tail = (tail r + 1) AND MASK r in next_tail = head r)"

definition size_ring :: "'a ring \<Rightarrow> u64" where
  "size_ring r = (tail r - head r) AND MASK r"

definition capacity_ring :: "'a ring \<Rightarrow> nat" where
  "capacity_ring r = SIZE r - 1"

text \<open>
  The \<^verbatim>\<open>static_assert\<close> of the class, \<^verbatim>\<open>SIZE > 0 && (SIZE & (SIZE - 1)) == 0\<close> for a
  \<^verbatim>\<open>SIZE\<close> that is a \<^verbatim>\<open>size_t\<close>. It holds exactly of the powers of two \<open>2 ^ 0\<close>, ...,
  \<open>2 ^ 63\<close>. A ring is well formed when it satisfies the assertion and both indices are
  inside the array.
\<close>

definition static_assert :: "nat \<Rightarrow> bool" where
  "static_assert n \<longleftrightarrow>
     n < 2 ^ 64 \<and> (of_nat n :: u64) > 0 \<and> (of_nat n :: u64) AND (of_nat n - 1) = 0"

definition power_of_two :: "nat \<Rightarrow> bool" where
  "power_of_two n \<longleftrightarrow> (\<exists>k < 64. n = 2 ^ k)"

definition ring_wf :: "'a ring \<Rightarrow> bool" where
  "ring_wf r \<longleftrightarrow> static_assert (SIZE r) \<and> unat (head r) < SIZE r \<and> unat (tail r) < SIZE r"

text \<open>The items a ring holds, oldest first: the slots from \<open>head\<close> up to \<open>tail\<close>.\<close>

definition stored :: "'a ring \<Rightarrow> 'a list" where
  "stored r =
     map (\<lambda>i. buffer r ! ((unat (head r) + i) mod SIZE r)) [0..<unat (size_ring r)]"

text \<open>
  A sequence of calls on one ring. \<open>run_ops\<close> returns what each call returned
  (\<^verbatim>\<open>true\<close> or \<^verbatim>\<open>false\<close>), the items handed out by the pops that returned \<^verbatim>\<open>true\<close>, in
  order, and the ring after the last call.
\<close>

datatype 'a ring_op = Push 'a | Pop

fun run_ops :: "'a ring_op list \<Rightarrow> 'a ring \<Rightarrow> bool list \<times> 'a list \<times> 'a ring" where
  "run_ops [] r = ([], [], r)"
| "run_ops (Push x # ops) r =
     (case push x r of (ok, r') \<Rightarrow>
        (case run_ops ops r' of (oks, out, r'') \<Rightarrow> (ok # oks, out, r'')))"
| "run_ops (Pop # ops) r =
     (case pop r of
        (None, r') \<Rightarrow> (case run_ops ops r' of (oks, out, r'') \<Rightarrow> (False # oks, out, r''))
      | (Some x, r') \<Rightarrow> (case run_ops ops r' of (oks, out, r'') \<Rightarrow> (True # oks, x # out, r'')))"

fun pushes :: "'a ring_op list \<Rightarrow> 'a list" where
  "pushes [] = []"
| "pushes (Push x # ops) = x # pushes ops"
| "pushes (Pop # ops) = pushes ops"

fun pops :: "'a ring_op list \<Rightarrow> nat" where
  "pops [] = 0"
| "pops (Push x # ops) = pops ops"
| "pops (Pop # ops) = Suc (pops ops)"

text \<open>The slots \<open>H\<close>, \<open>H + 1\<close>, ..., \<open>H + n - 1\<close> (modulo \<open>N\<close>) of an array.\<close>

definition seg :: "'a list \<Rightarrow> nat \<Rightarrow> nat \<Rightarrow> nat \<Rightarrow> 'a list" where
  "seg b H n N = map (\<lambda>i. b ! ((H + i) mod N)) [0..<n]"

text \<open>Rings and call sequences used as concrete inputs.\<close>

definition ring_demo :: "nat ring" where
  "ring_demo = LockFreeRingBuffer [0, 0, 0, 0]"

definition ring_demo_full :: "nat ring" where
  "ring_demo_full = \<lparr>buffer = [5, 6], head = 1, tail = 0\<rparr>"

definition ops_demo :: "nat ring_op list" where
  "ops_demo = [Pop, Push 1, Push 2, Pop, Push 3, Pop, Pop]"

definition ring_two :: "nat ring" where
  "ring_two = LockFreeRingBuffer [0, 0]"

subsection \<open>UltraMessage\<close>

record ultra_message =
  u_message_id :: u64
  u_timestamp :: u64
  u_message_type :: u32
  u_payload_size :: u32
  u_payload :: "u8 list"

subsection \<open>UltraServerStats\<close>

record ultra_server_stats =
  total_messages :: u64
  active_connections :: u64
  u_peak_connections :: u64
  total_latency :: u64
  message_count :: u64

text \<open>
  \<^verbatim>\<open>get_average_latency\<close> computes in \<^verbatim>\<open>double\<close>. The embedding does not fix a model of
  floating point: the conversion from \<^verbatim>\<open>uint64_t\<close>, the quotient and the constant
  \<^verbatim>\<open>0.0\<close> are parameters. A quotient taken with a zero divisor is the value \<open>None\<close>.
\<close>

definition double_div :: "(u64 \<Rightarrow> 'd) \<Rightarrow> ('d \<Rightarrow> 'd \<Rightarrow> 'd) \<Rightarrow> u64 \<Rightarrow> u64 \<Rightarrow> 'd option" where
  "double_div cast quot a b = (if b = 0 then None else Some (quot (cast a) (cast b)))"

definition get_average_latency ::
    "'d \<Rightarrow> (u64 \<Rightarrow> 'd) \<Rightarrow> ('d \<Rightarrow> 'd \<Rightarrow> 'd) \<Rightarrow> ultra_server_stats \<Rightarrow> 'd option" where
  "get_average_latency zero cast quot s =
     (let count = message_count s
      in if count = 0 then Some zero
         else double_div cast quot (total_latency s) count)"

subsection \<open>The buffer pool of UltraHFTServer\<close>

text \<open>
  \<^verbatim>\<open>send_buffer_\<close> and \<^verbatim>\<open>recv_buffer_\<close> are \<^verbatim>\<open>std::array<UltraMessage, 1024>\<close>; a pointer
  into one of them is the index of its slot. \<^verbatim>\<open>fetch_add(1)\<close> returns the previous
  value of the counter, a \<^verbatim>\<open>size_t\<close> of 64 bits.
\<close>

definition buffer_slots :: nat where
  "buffer_slots = 1024"

record buffer_pool =
  send_buffer :: "ultra_message list"
  recv_buffer :: "ultra_message list"
  send_buffer_index :: u64
  recv_buffer_index :: u64

definition get_next_send_buffer :: "'a buffer_pool_scheme \<Rightarrow> nat \<times> 'a buffer_pool_scheme" where
  "get_next_send_buffer s =
     (let index = unat (send_buffer_index s) mod buffer_slots
      in (index, s\<lparr>send_buffer_index := send_buffer_index s + 1\<rparr>))"

definition get_next_recv_buffer :: "'a buffer_pool_scheme \<Rightarrow> nat \<times> 'a buffer_pool_scheme" where
  "get_next_recv_buffer s =
     (let index = unat (recv_buffer_index s) mod buffer_slots
      in (index, s\<lparr>recv_buffer_index := recv_buffer_index s + 1\<rparr>))"

text \<open>\<open>n\<close> consecutive calls, with the slots they return in order.\<close>

fun next_send_buffers :: "nat \<Rightarrow> 'a buffer_pool_scheme \<Rightarrow> nat list \<times> 'a buffer_pool_scheme" where
  "next_send_buffers 0 s = ([], s)"
| "next_send_buffers (Suc n) s =
     (case get_next_send_buffer s of (i, s') \<Rightarrow>
        (case next_send_buffers n s' of (js, s'') \<Rightarrow> (i # js, s'')))"

fun next_recv_buffers :: "nat \<Rightarrow> 'a buffer_pool_scheme \<Rightarrow> nat list \<times> 'a buffer_pool_scheme" where
  "next_recv_buffers 0 s = ([], s)"
| "next_recv_buffers (Suc n) s =
     (case get_next_recv_buffer s of (i, s') \<Rightarrow>
        (case next_recv_buffers n s' of (js, s'') \<Rightarrow> (i # js, s'')))"

section \<open>The operating system\<close>

text \<open>
  What the servers see of the process and the kernel. A file descriptor is a C
  \<^verbatim>\<open>int\<close>. \<open>open_fds\<close> are the descriptors open in the process; \<open>epoll_interest\<close>
  is the interest list of the epoll instance, with the \<^verbatim>\<open>data.ptr\<close> registered for each
  descriptor (\<open>None\<close> is \<^verbatim>\<open>nullptr\<close>, the mark of the listener; a pointer to a connection
  is a number: the address of the object in HFTServer, its index in \<^verbatim>\<open>connections_\<close> in
  UltraHFTServer); \<open>joined\<close> are the threads that have been joined; \<open>sent\<close> are the
  records passed to \<^verbatim>\<open>send\<close>; \<open>delivered\<close> are the calls of
  \<^verbatim>\<open>IMessageService::process_message\<close>, with the tag the service was found under; the
  \<open>n\<close>-th reading of the clock is \<open>clock n\<close>. The text written
  to the console is not modelled.
\<close>

type_synonym c_int = "32 word"

definition EAGAIN :: int where "EAGAIN = 11"
definition EWOULDBLOCK :: int where "EWOULDBLOCK = 11"
definition ECONNRESET :: int where "ECONNRESET = 104"

record sockaddr_in =
  sin_addr :: u32
  sin_port :: u16

record os =
  open_fds :: "c_int set"
  epoll_interest :: "c_int \<rightharpoonup> nat option"
  joined :: "nat set"
  sent :: "(c_int \<times> ultra_message) list"
  delivered :: "(u8 \<times> message) list"
  clock :: "nat \<Rightarrow> u64"
  reads :: nat

text \<open>
  \<^verbatim>\<open>close\<close> frees the descriptor; the kernel drops a closed descriptor from the interest
  list. Closing the epoll descriptor ends the interest list.
\<close>

definition os_close :: "c_int \<Rightarrow> os \<Rightarrow> os" where
  "os_close d w = w\<lparr>open_fds := open_fds w - {d},
                     epoll_interest := (epoll_interest w)(d := None)\<rparr>"

definition close_epoll :: "c_int \<Rightarrow> os \<Rightarrow> os" where
  "close_epoll d w = w\<lparr>open_fds := open_fds w - {d}, epoll_interest := Map.empty\<rparr>"

definition epoll_ctl_add :: "c_int \<Rightarrow> nat option \<Rightarrow> os \<Rightarrow> os" where
  "epoll_ctl_add d p w = w\<lparr>epoll_interest := (epoll_interest w)(d \<mapsto> p)\<rparr>"

definition epoll_ctl_del :: "c_int \<Rightarrow> os \<Rightarrow> os" where
  "epoll_ctl_del d w = w\<lparr>epoll_interest := (epoll_interest w)(d := None)\<rparr>"

definition now :: "os \<Rightarrow> u64 \<times> os" where
  "now w = (clock w (reads w), w\<lparr>reads := Suc (reads w)\<rparr>)"

text \<open>
  A \<^verbatim>\<open>std::thread\<close>. Joining waits for the thread to end; the workers leave their loop
  once \<^verbatim>\<open>running_\<close> is false, which \<open>stop\<close> sets before it joins.
\<close>

record thread =
  tid :: nat
  joinable :: bool

definition join :: "thread \<Rightarrow> os \<Rightarrow> os" where
  "join t w = w\<lparr>joined := insert (tid t) (joined w)\<rparr>"

definition join_threads :: "thread list \<Rightarrow> os \<Rightarrow> os" where
  "join_threads ts w = fold (\<lambda>t w. if joinable t then join t w else w) ts w"

text \<open>
  What one call of \<^verbatim>\<open>recv\<close> gives: \<open>-1\<close> with an \<^verbatim>\<open>errno\<close>, \<open>0\<close>, or a positive number
  of bytes, with the record the receive buffer then holds. The calls of one service
  routine take their results from a list; when the list is used up nothing is pending
  and \<^verbatim>\<open>recv\<close> fails with \<^verbatim>\<open>EAGAIN\<close>.
\<close>

datatype 'm recv_result = Recv_error int | Recv_eof | Recv_data nat 'm

text \<open>
  What one call of \<^verbatim>\<open>accept\<close> gives: \<open>-1\<close> with an \<^verbatim>\<open>errno\<close>, or a connected socket. For
  the socket: its descriptor and peer address, whether the \<^verbatim>\<open>setsockopt\<close> calls and the
  \<^verbatim>\<open>fcntl\<close> calls on it succeed, whether \<^verbatim>\<open>EPOLL_CTL_ADD\<close> succeeds, and the address
  at which \<^verbatim>\<open>make_unique\<close> places the connection object. When the list is used up no
  connection is pending and \<^verbatim>\<open>accept\<close> fails with \<^verbatim>\<open>EAGAIN\<close>.
\<close>

record accepted =
  a_fd :: c_int
  a_addr :: sockaddr_in
  a_sockopts :: bool
  a_nonblocking :: bool
  a_epoll_add :: bool
  a_object :: u64

datatype accept_result = Accept_error int | Accept_ok accepted

text \<open>
  The sizes of the record types, which depend on the layout the compiler chooses, are
  parameters.
\<close>

record layout =
  sizeof_Message :: nat
  sizeof_OrderMessage :: nat
  sizeof_MarketDataMessage :: nat
  sizeof_UltraMessage :: nat

section \<open>hft_server.h, hft_server.cpp\<close>

record connection =
  fd :: c_int
  addr :: sockaddr_in
  last_heartbeat :: u64
  client_id :: u64
  is_authenticated :: bool

definition Connection :: connection where
  "Connection = \<lparr>fd = - 1, addr = \<lparr>sin_addr = 0, sin_port = 0\<rparr>, last_heartbeat = 0,
                 client_id = 0, is_authenticated = False\<rparr>"

text \<open>
  A service is known by what its \<^verbatim>\<open>process_message\<close> does to the connection it is
  handed. \<^verbatim>\<open>avg_latency_us\<close> is a \<^verbatim>\<open>double\<close>: its type is a parameter, and so is the update
  \<open>ema avg latency\<close> of the moving average with a latency in nanoseconds.
\<close>

type_synonym service = "message \<Rightarrow> connection \<Rightarrow> connection"

record 'd server_stats =
  total_messages_processed :: u64
  total_connections :: u64
  avg_latency_us :: 'd
  peak_connections :: u64

record 'd hft_server =
  running :: bool
  server_socket :: c_int
  epoll_fd :: c_int
  worker_threads :: "thread list"
  connections :: "(c_int \<times> connection) list"
  services :: "u8 \<rightharpoonup> service"
  stats :: "'d server_stats"

text \<open>
  \<^verbatim>\<open>connections_\<close> is an \<^verbatim>\<open>unordered_map\<close> from descriptors to connections, here an
  association list: \<^verbatim>\<open>connections_[k] = c\<close> is \<open>AList.update\<close>, \<^verbatim>\<open>erase\<close> is
  \<open>AList.delete\<close>, \<^verbatim>\<open>find\<close> is \<open>map_of\<close> and \<^verbatim>\<open>size()\<close> is the length.
\<close>

definition register_service :: "u8 \<Rightarrow> service \<Rightarrow> 'd hft_server \<Rightarrow> 'd hft_server" where
  "register_service type service s = s\<lparr>services := (services s)(type \<mapsto> service)\<rparr>"

definition hft_stop :: "'d hft_server \<times> os \<Rightarrow> 'd hft_server \<times> os" where
  "hft_stop = (\<lambda>(s, w).
     if \<not> running s then (s, w)
     else
       let s1 = s\<lparr>running := False\<rparr>;
           (s2, w2) = (if server_socket s1 \<noteq> - 1
                       then (s1\<lparr>server_socket := - 1\<rparr>, os_close (server_socket s1) w)
                       else (s1, w));
           w3 = join_threads (worker_threads s2) w2;
           s3 = s2\<lparr>worker_threads := []\<rparr>;
           (s4, w4) = (if epoll_fd s3 \<noteq> - 1
                       then (s3\<lparr>epoll_fd := - 1\<rparr>, close_epoll (epoll_fd s3) w3)
                       else (s3, w3));
           w5 = fold (\<lambda>(k, conn) w. os_close (fd conn) w) (connections s4) w4
       in (s4\<lparr>connections := []\<rparr>, w5))"

definition hft_close_connection ::
    "connection \<Rightarrow> 'd hft_server \<times> os \<Rightarrow> 'd hft_server \<times> os" where
  "hft_close_connection conn = (\<lambda>(s, w).
     (s\<lparr>connections := AList.delete (fd conn) (connections s)\<rparr>,
      os_close (fd conn) (epoll_ctl_del (fd conn) w)))"

text \<open>
  \<open>accept_connections\<close> calls \<^verbatim>\<open>accept\<close> once. The result holds the state and what is
  left of the pending connections.
\<close>

definition hft_accept_connections ::
    "accept_result list \<Rightarrow> 'd hft_server \<times> os \<Rightarrow> ('d hft_server \<times> os) \<times> accept_result list" where
  "hft_accept_connections pending = (\<lambda>(s, w).
     case pending of
       [] \<Rightarrow> ((s, w), [])
     | Accept_error e # rest \<Rightarrow>
         (if e = EAGAIN \<or> e = EWOULDBLOCK then ((s, w), rest) else ((s, w), rest))
     | Accept_ok a # rest \<Rightarrow>
         let client_fd = a_fd a;
             w1 = w\<lparr>open_fds := insert client_fd (open_fds w)\<rparr>;
             (t, w2) = now w1;
             conn = Connection\<lparr>fd := client_fd, addr := a_addr a, last_heartbeat := t,
                               client_id := a_object a\<rparr>
         in if \<not> a_epoll_add a then ((s, os_close client_fd w2), rest)
            else
              let w3 = epoll_ctl_add client_fd (Some (unat (a_object a))) w2;
                  conns = AList.update client_fd conn (connections s);
                  st = stats s;
                  st' = st\<lparr>total_connections := total_connections st + 1,
                           peak_connections :=
                             max (peak_connections st) (of_nat (length conns))\<rparr>
              in ((s\<lparr>connections := conns, stats := st'\<rparr>, w3), rest))"

text \<open>
  \<open>process_client_message\<close> takes the connection by reference and may change it
  through the service; the result holds the connection afterwards. The overloads for
  \<^verbatim>\<open>OrderMessage\<close> and \<^verbatim>\<open>MarketDataMessage\<close> have the same body up to the text they
  print, and hand the record to the service as a \<^verbatim>\<open>const Message&\<close>.
\<close>

definition process_client_message ::
    "('d \<Rightarrow> int \<Rightarrow> 'd) \<Rightarrow> message \<Rightarrow> connection \<Rightarrow> 'd hft_server \<times> os \<Rightarrow>
     connection \<times> 'd hft_server \<times> os" where
  "process_client_message ema msg conn = (\<lambda>(s, w).
     let (start_time, w1) = now w;
         (conn', w2) =
           (case services s (message_type msg) of
              Some service \<Rightarrow>
                (service msg conn, w1\<lparr>delivered := delivered w1 @ [(message_type msg, msg)]\<rparr>)
            | None \<Rightarrow> (conn, w1));
         (end_time, w3) = now w2;
         latency = sint (end_time - start_time);
         st = stats s
     in (conn',
         s\<lparr>stats := st\<lparr>total_messages_processed := total_messages_processed st + 1,
                          avg_latency_us := ema (avg_latency_us st) latency\<rparr>\<rparr>,
         w3))"

definition process_client_message_order ::
    "('d \<Rightarrow> int \<Rightarrow> 'd) \<Rightarrow> message \<Rightarrow> connection \<Rightarrow> 'd hft_server \<times> os \<Rightarrow>
     connection \<times> 'd hft_server \<times> os" where
  "process_client_message_order = process_client_message"

definition process_client_message_market_data ::
    "('d \<Rightarrow> int \<Rightarrow> 'd) \<Rightarrow> message \<Rightarrow> connection \<Rightarrow> 'd hft_server \<times> os \<Rightarrow>
     connection \<times> 'd hft_server \<times> os" where
  "process_client_message_market_data = process_client_message"

text \<open>
  The connection \<^verbatim>\<open>*conn\<close> of \<open>handle_client_events\<close> is the object the table holds
  under \<open>client_fd\<close>: a call that changes it changes the entry.
\<close>

definition with_conn ::
    "c_int \<Rightarrow> (connection \<Rightarrow> 'd hft_server \<times> os \<Rightarrow> connection \<times> 'd hft_server \<times> os) \<Rightarrow>
     'd hft_server \<times> os \<Rightarrow> 'd hft_server \<times> os" where
  "with_conn client_fd f st =
     (case map_of (connections (fst st)) client_fd of
        None \<Rightarrow> st
      | Some conn \<Rightarrow>
          (case f conn st of (conn', s', w') \<Rightarrow>
             (s'\<lparr>connections := AList.update client_fd conn' (connections s')\<rparr>, w')))"

text \<open>The body of the loop of \<open>handle_client_events\<close> for a positive \<^verbatim>\<open>bytes_read\<close>.\<close>

definition hft_dispatch ::
    "layout \<Rightarrow> ('d \<Rightarrow> int \<Rightarrow> 'd) \<Rightarrow> c_int \<Rightarrow> nat \<Rightarrow> message \<Rightarrow>
     'd hft_server \<times> os \<Rightarrow> 'd hft_server \<times> os" where
  "hft_dispatch L ema client_fd bytes_read msg st =
     (if bytes_read \<ge> sizeof_Message L then
        (if message_type msg = ORDER_NEW \<or> message_type msg = ORDER_CANCEL
            \<or> message_type msg = ORDER_REPLACE then
           (if bytes_read \<ge> sizeof_OrderMessage L
            then with_conn client_fd (process_client_message_order ema msg) st
            else st)
         else if message_type msg = MARKET_DATA then
           (if bytes_read \<ge> sizeof_MarketDataMessage L
            then with_conn client_fd (process_client_message_market_data ema msg) st
            else st)
         else with_conn client_fd (process_client_message ema msg) st)
      else st)"

fun hft_recv_loop ::
    "layout \<Rightarrow> ('d \<Rightarrow> int \<Rightarrow> 'd) \<Rightarrow> c_int \<Rightarrow> message recv_result list \<Rightarrow>
     'd hft_server \<times> os \<Rightarrow> ('d hft_server \<times> os) \<times> message recv_result list" where
  "hft_recv_loop L ema client_fd [] st = (st, [])"
| "hft_recv_loop L ema client_fd (Recv_error e # rest) st =
     (if e = EAGAIN \<or> e = EWOULDBLOCK then (st, rest) else (st, rest))"
| "hft_recv_loop L ema client_fd (Recv_eof # rest) st =
     (case map_of (connections (fst st)) client_fd of
        Some conn \<Rightarrow> (hft_close_connection conn st, rest)
      | None \<Rightarrow> (st, rest))"
| "hft_recv_loop L ema client_fd (Recv_data bytes_read msg # rest) st =
     hft_recv_loop L ema client_fd rest (hft_dispatch L ema client_fd bytes_read msg st)"

definition hft_handle_client_events ::
    "layout \<Rightarrow> ('d \<Rightarrow> int \<Rightarrow> 'd) \<Rightarrow> c_int \<Rightarrow> message recv_result list \<Rightarrow>
     'd hft_server \<times> os \<Rightarrow> ('d hft_server \<times> os) \<times> message recv_result list" where
  "hft_handle_client_events L ema client_fd incoming st =
     (case map_of (connections (fst st)) client_fd of
        None \<Rightarrow> (st, incoming)
      | Some conn \<Rightarrow> hft_recv_loop L ema client_fd incoming st)"

text \<open>
  Properties of inputs used in the statements: a \<^verbatim>\<open>recv\<close> result that carries data; a
  server none of whose services changes the descriptor of the connection it is handed;
  a server whose table holds, under \<open>client_fd\<close>, a connection with that descriptor.
\<close>

fun is_data :: "'m recv_result \<Rightarrow> bool" where
  "is_data (Recv_data n m) = True"
| "is_data _ = False"

definition keeps_fd :: "'d hft_server \<Rightarrow> bool" where
  "keeps_fd s \<longleftrightarrow> (\<forall>t h m c. services s t = Some h \<longrightarrow> fd (h m c) = fd c)"

definition serves :: "'d hft_server \<Rightarrow> c_int \<Rightarrow> bool" where
  "serves s client_fd \<longleftrightarrow>
     (case map_of (connections s) client_fd of None \<Rightarrow> False | Some c \<Rightarrow> fd c = client_fd)"

text \<open>
  The size tests of \<open>handle_client_events\<close> on a record of \<open>bytes_read\<close> bytes: the
  record is handed to \<open>process_client_message\<close> when they hold.
\<close>

definition complete_record :: "layout \<Rightarrow> nat \<Rightarrow> message \<Rightarrow> bool" where
  "complete_record L bytes_read msg \<longleftrightarrow>
     sizeof_Message L \<le> bytes_read
     \<and> (message_type msg \<in> {ORDER_NEW, ORDER_CANCEL, ORDER_REPLACE}
          \<longrightarrow> sizeof_OrderMessage L \<le> bytes_read)
     \<and> (message_type msg = MARKET_DATA \<longrightarrow> sizeof_MarketDataMessage L \<le> bytes_read)"

section \<open>ultra_hft_server.cpp\<close>

record ultra_connection =
  u_fd :: c_int
  u_addr :: sockaddr_in
  u_last_heartbeat :: u64
  u_client_id :: u64
  u_is_authenticated :: bool
  is_active :: bool

definition UltraConnection :: ultra_connection where
  "UltraConnection = \<lparr>u_fd = - 1, u_addr = \<lparr>sin_addr = 0, sin_port = 0\<rparr>,
                      u_last_heartbeat = 0, u_client_id = 0, u_is_authenticated = False,
                      is_active = True\<rparr>"

text \<open>
  The server, with its buffer pool. \<^verbatim>\<open>connections_\<close> is a vector of owning pointers that
  only grows, so a pointer to a connection is its index in the vector. A pointer that
  the source tests against \<^verbatim>\<open>nullptr\<close> is an option. The two queues, which no claim
  reads, are left out.
\<close>

record ultra_server = buffer_pool +
  u_running :: bool
  u_server_socket :: c_int
  u_epoll_fd :: c_int
  u_worker_threads :: "thread list"
  u_connections :: "ultra_connection list"
  connection_count :: u64
  u_stats :: ultra_server_stats

definition ultra_stop :: "ultra_server \<times> os \<Rightarrow> ultra_server \<times> os" where
  "ultra_stop = (\<lambda>(s, w).
     if \<not> u_running s then (s, w)
     else
       let s1 = s\<lparr>u_running := False\<rparr>;
           w1 = join_threads (u_worker_threads s1) w;
           s2 = s1\<lparr>u_worker_threads := []\<rparr>;
           (s3, w3) = (if 0 \<le> sint (u_epoll_fd s2)
                       then (s2\<lparr>u_epoll_fd := - 1\<rparr>, close_epoll (u_epoll_fd s2) w1)
                       else (s2, w1));
           (s4, w4) = (if 0 \<le> sint (u_server_socket s3)
                       then (s3\<lparr>u_server_socket := - 1\<rparr>, os_close (u_server_socket s3) w3)
                       else (s3, w3))
       in (s4, w4))"

definition ultra_close_connection :: "nat option \<Rightarrow> ultra_server \<times> os \<Rightarrow> ultra_server \<times> os" where
  "ultra_close_connection conn = (\<lambda>(s, w).
     case conn of
       None \<Rightarrow> (s, w)
     | Some i \<Rightarrow>
         let c = u_connections s ! i;
             s1 = s\<lparr>u_connections := (u_connections s)[i := c\<lparr>is_active := False\<rparr>]\<rparr>;
             w1 = epoll_ctl_del (u_fd c) w;
             w2 = os_close (u_fd c) w1;
             st = u_stats s1
         in (s1\<lparr>u_stats := st\<lparr>active_connections := active_connections st - 1\<rparr>\<rparr>, w2))"

text \<open>
  The two atomic operations by which \<open>accept_connections\<close> counts a connection:
  \<^verbatim>\<open>active_connections.fetch_add(1)\<close>, whose result plus one is the local \<^verbatim>\<open>active\<close>, and
  the \<^verbatim>\<open>compare_exchange_weak\<close> loop, which stores \<^verbatim>\<open>active\<close> in \<^verbatim>\<open>peak_connections\<close>
  when it is above the peak (one thread runs the loop, and the exchange is taken not to
  fail when the values agree). Between the two the statistics are as
  \<open>fetch_add_active\<close> leaves them, and other workers read them there.
\<close>

definition fetch_add_active :: "ultra_server_stats \<Rightarrow> ultra_server_stats" where
  "fetch_add_active st = st\<lparr>active_connections := active_connections st + 1\<rparr>"

definition raise_peak :: "u64 \<Rightarrow> ultra_server_stats \<Rightarrow> ultra_server_stats" where
  "raise_peak active st =
     (let peak = u_peak_connections st
      in st\<lparr>u_peak_connections := (if active > peak then active else peak)\<rparr>)"

definition count_connection :: "ultra_server_stats \<Rightarrow> ultra_server_stats" where
  "count_connection st =
     (let active = active_connections st + 1
      in raise_peak active (fetch_add_active st))"

text \<open>
  The loop of \<open>accept_connections\<close>. Its body ends with an output statement that reads
  \<^verbatim>\<open>conn->client_id\<close> after \<^verbatim>\<open>conn\<close> was moved into the vector: \<^verbatim>\<open>conn\<close> is then the null
  pointer and the behaviour is undefined. The process is taken to be killed there (a
  segmentation fault), in the state it has reached: the connection registered, stored
  and counted. The result is \<open>Inl\<close> with that state when the process is killed, and
  \<open>Inr\<close> with the state and what is left of the pending connections when the routine
  returns.
\<close>

datatype fault = Null_dereference

fun ultra_accept_connections ::
    "accept_result list \<Rightarrow> ultra_server \<times> os \<Rightarrow>
     (fault \<times> (ultra_server \<times> os)) + ((ultra_server \<times> os) \<times> accept_result list)" where
  "ultra_accept_connections [] st = Inr (st, [])"
| "ultra_accept_connections (Accept_error e # rest) st =
     (if e = EAGAIN \<or> e = EWOULDBLOCK then Inr (st, rest) else Inr (st, rest))"
| "ultra_accept_connections (Accept_ok a # rest) st =
     (let s = fst st; w = snd st;
          client_fd = a_fd a;
          w1 = w\<lparr>open_fds := insert client_fd (open_fds w)\<rparr>
      in if \<not> a_sockopts a \<or> \<not> a_nonblocking a
         then ultra_accept_connections rest (s, os_close client_fd w1)
         else
           let (t, w2) = now w1;
               conn = UltraConnection\<lparr>u_fd := client_fd, u_addr := a_addr a,
                                       u_last_heartbeat := t,
                                       u_client_id := connection_count s,
                                       u_is_authenticated := True\<rparr>;
               s1 = s\<lparr>connection_count := connection_count s + 1\<rparr>
           in if \<not> a_epoll_add a
              then ultra_accept_connections rest (s1, os_close client_fd w2)
              else
                let w3 = epoll_ctl_add client_fd (Some (length (u_connections s1))) w2;
                    s2 = s1\<lparr>u_connections := u_connections s1 @ [conn]\<rparr>;
                    s3 = s2\<lparr>u_stats := count_connection (u_stats s2)\<rparr>
                in Inl (Null_dereference, (s3, w3)))"

text \<open>The state in which a run of the accept routine ends, killed or returned.\<close>

definition accept_state ::
    "(fault \<times> (ultra_server \<times> os)) + ((ultra_server \<times> os) \<times> accept_result list) \<Rightarrow>
     ultra_server \<times> os" where
  "accept_state res = (case res of Inl (f, st) \<Rightarrow> st | Inr (st, rest) \<Rightarrow> st)"

text \<open>
  \<open>send_response\<close>: the record sent is a slot of \<^verbatim>\<open>send_buffer_\<close>. Whether \<^verbatim>\<open>send\<close>
  takes the whole record is not known to the model; the result of \<open>send_response\<close>,
  which no caller reads, is left out.
\<close>

definition send_response :: "nat option \<Rightarrow> nat option \<Rightarrow> ultra_server \<times> os \<Rightarrow> ultra_server \<times> os" where
  "send_response conn msg = (\<lambda>(s, w).
     case (conn, msg) of
       (Some i, Some m) \<Rightarrow>
         (if \<not> is_active (u_connections s ! i) then (s, w)
          else (s, w\<lparr>sent := sent w @ [(u_fd (u_connections s ! i), send_buffer s ! m)]\<rparr>))
     | _ \<Rightarrow> (s, w))"

definition acknowledge :: "u32 \<Rightarrow> nat \<Rightarrow> nat option \<Rightarrow> ultra_server \<times> os \<Rightarrow> ultra_server \<times> os" where
  "acknowledge ack_type m conn = (\<lambda>(s, w).
     let (response, s1) = get_next_send_buffer s;
         (t, w1) = now w;
         slot = (send_buffer s1 ! response)
                  \<lparr>u_message_id := u_message_id (recv_buffer s1 ! m),
                   u_timestamp := t,
                   u_message_type := ack_type\<rparr>;
         s2 = s1\<lparr>send_buffer := (send_buffer s1)[response := slot]\<rparr>
     in send_response conn (Some response) (s2, w1))"

definition process_order_message :: "nat option \<Rightarrow> nat option \<Rightarrow> ultra_server \<times> os \<Rightarrow> ultra_server \<times> os" where
  "process_order_message msg conn st =
     (case (msg, conn) of
        (Some m, Some i) \<Rightarrow> acknowledge 3 m conn st
      | _ \<Rightarrow> st)"

definition process_market_data_message :: "nat option \<Rightarrow> nat option \<Rightarrow> ultra_server \<times> os \<Rightarrow> ultra_server \<times> os" where
  "process_market_data_message msg conn st =
     (case (msg, conn) of
        (Some m, Some i) \<Rightarrow> acknowledge 4 m conn st
      | _ \<Rightarrow> st)"

definition process_message :: "nat option \<Rightarrow> nat option \<Rightarrow> ultra_server \<times> os \<Rightarrow> ultra_server \<times> os" where
  "process_message msg conn st =
     (case (msg, conn) of
        (Some m, Some i) \<Rightarrow>
          let ty = u_message_type (recv_buffer (fst st) ! m);
              (s1, w1) = (if ty = 1 then process_order_message msg conn st
                          else if ty = 2 then process_market_data_message msg conn st
                          else st);
              stt = u_stats s1
          in (s1\<lparr>u_stats := stt\<lparr>total_messages := total_messages stt + 1\<rparr>\<rparr>, w1)
      | _ \<Rightarrow> st)"

definition update_stats :: "u64 \<Rightarrow> ultra_server \<Rightarrow> ultra_server" where
  "update_stats latency s =
     (let st = u_stats s
      in s\<lparr>u_stats := st\<lparr>total_latency := total_latency st + latency,
                           message_count := message_count st + 1\<rparr>\<rparr>)"

text \<open>The first connection of the vector with the descriptor.\<close>

fun find_connection :: "c_int \<Rightarrow> ultra_connection list \<Rightarrow> nat option" where
  "find_connection d [] = None"
| "find_connection d (c # cs) =
     (if u_fd c = d then Some 0 else map_option Suc (find_connection d cs))"

text \<open>
  \<open>handle_client_events\<close> calls \<^verbatim>\<open>recv\<close> once, into the next slot of \<^verbatim>\<open>recv_buffer_\<close>.
\<close>

definition ultra_handle_client_events ::
    "layout \<Rightarrow> c_int \<Rightarrow> ultra_message recv_result list \<Rightarrow>
     ultra_server \<times> os \<Rightarrow> (ultra_server \<times> os) \<times> ultra_message recv_result list" where
  "ultra_handle_client_events L client_fd incoming = (\<lambda>(s, w).
     case find_connection client_fd (u_connections s) of
       None \<Rightarrow> ((s, w), incoming)
     | Some i \<Rightarrow>
         (let (msg, s1) = get_next_recv_buffer s
          in (case incoming of
                [] \<Rightarrow> ((s1, w), [])
              | Recv_error e # rest \<Rightarrow>
                  (if e = EAGAIN \<or> e = EWOULDBLOCK then ((s1, w), rest)
                   else (ultra_close_connection (Some i) (s1, w), rest))
              | Recv_eof # rest \<Rightarrow> (ultra_close_connection (Some i) (s1, w), rest)
              | Recv_data bytes_read m # rest \<Rightarrow>
                  (let s2 = s1\<lparr>recv_buffer := (recv_buffer s1)[msg := m]\<rparr>
                   in if bytes_read < sizeof_UltraMessage L then ((s2, w), rest)
                      else
                        (let (receive_time, w1) = now w;
                             latency = receive_time - u_timestamp m;
                             s3 = update_stats latency s2
                         in (process_message (Some msg) (Some i) (s3, w1), rest))))))"

text \<open>
  An accepted socket is admitted by the loop of UltraHFTServer when its set-up and its
  registration with the reactor succeed.
\<close>

definition admissible :: "accepted \<Rightarrow> bool" where
  "admissible a \<longleftrightarrow> a_sockopts a \<and> a_nonblocking a \<and> a_epoll_add a"

section \<open>Sequences of events\<close>

text \<open>
  A readiness event as a worker of UltraHFTServer handles it in the body of its loop:
  the reactor reports a descriptor of its interest list with the pointer registered for
  it. The null pointer marks the listener and \<open>accept_connections\<close> runs; any other
  pointer is a connection, and \<open>handle_client_events\<close> runs on its descriptor when the
  connection is active. The reactor reports no descriptor outside its interest list.
\<close>

definition ultra_worker_event ::
    "layout \<Rightarrow> c_int \<Rightarrow> accept_result list \<Rightarrow> ultra_message recv_result list \<Rightarrow>
     ultra_server \<times> os \<Rightarrow> (fault \<times> (ultra_server \<times> os)) + (ultra_server \<times> os)" where
  "ultra_worker_event L d pending incoming = (\<lambda>(s, w).
     case epoll_interest w d of
       None \<Rightarrow> Inr (s, w)
     | Some None \<Rightarrow>
         (case ultra_accept_connections pending (s, w) of
            Inl killed \<Rightarrow> Inl killed
          | Inr (st, rest) \<Rightarrow> Inr st)
     | Some (Some i) \<Rightarrow>
         (if is_active (u_connections s ! i)
          then Inr (fst (ultra_handle_client_events L (u_fd (u_connections s ! i)) incoming
                           (s, w)))
          else Inr (s, w)))"

datatype ultra_event =
  Ultra_ready c_int "accept_result list" "ultra_message recv_result list"
| Ultra_stop

fun ultra_handle_event ::
    "layout \<Rightarrow> ultra_event \<Rightarrow> ultra_server \<times> os \<Rightarrow>
     (fault \<times> (ultra_server \<times> os)) + (ultra_server \<times> os)" where
  "ultra_handle_event L (Ultra_ready d pending incoming) st =
     ultra_worker_event L d pending incoming st"
| "ultra_handle_event L Ultra_stop st = Inr (ultra_stop st)"

text \<open>
  A sequence of events, one after the other. When the process is killed the events
  that follow do not happen.
\<close>

fun ultra_events ::
    "layout \<Rightarrow> ultra_event list \<Rightarrow> ultra_server \<times> os \<Rightarrow>
     (fault \<times> (ultra_server \<times> os)) + (ultra_server \<times> os)" where
  "ultra_events L [] st = Inr st"
| "ultra_events L (ev # evs) st =
     (case ultra_handle_event L ev st of
        Inl killed \<Rightarrow> Inl killed
      | Inr st' \<Rightarrow> ultra_events L evs st')"

text \<open>The state in which a sequence of events ends, killed or not.\<close>

definition last_state ::
    "(fault \<times> (ultra_server \<times> os)) + (ultra_server \<times> os) \<Rightarrow> ultra_server \<times> os" where
  "last_state res = (case res of Inl (f, st) \<Rightarrow> st | Inr st \<Rightarrow> st)"

text \<open>
  For HFTServer a sequence of calls of its accept routine, of its service routine (on
  any descriptor) and of \<open>stop\<close>.
\<close>

datatype hft_event =
  Hft_accept "accept_result list"
| Hft_client c_int "message recv_result list"
| Hft_stop

fun hft_handle_event ::
    "layout \<Rightarrow> ('d \<Rightarrow> int \<Rightarrow> 'd) \<Rightarrow> hft_event \<Rightarrow> 'd hft_server \<times> os \<Rightarrow> 'd hft_server \<times> os" where
  "hft_handle_event L ema (Hft_accept pending) st = fst (hft_accept_connections pending st)"
| "hft_handle_event L ema (Hft_client d incoming) st = fst (hft_handle_client_events L ema d incoming st)"
| "hft_handle_event L ema Hft_stop st = hft_stop st"

definition hft_events ::
    "layout \<Rightarrow> ('d \<Rightarrow> int \<Rightarrow> 'd) \<Rightarrow> hft_event list \<Rightarrow> 'd hft_server \<times> os \<Rightarrow> 'd hft_server \<times> os" where
  "hft_events L ema evs st = fold (hft_handle_event L ema) evs st"

text \<open>
  A server without connections: no connection in the table, the counters of the
  connections at 0, no connection on the interest list of the reactor.
\<close>

definition ultra_fresh :: "ultra_server \<times> os \<Rightarrow> bool" where
  "ultra_fresh = (\<lambda>(s, w).
     u_connections s = []
     \<and> active_connections (u_stats s) = 0 \<and> u_peak_connections (u_stats s) = 0
     \<and> finite (dom (epoll_interest w))
     \<and> (\<forall>d i. epoll_interest w d \<noteq> Some (Some i)))"

text \<open>
  What holds of UltraHFTServer between events: the pointers on the interest list are
  connections of the vector, each with the descriptor it is registered for; and unless
  \<^verbatim>\<open>peak_connections\<close> has reached the largest 64-bit value, \<^verbatim>\<open>active_connections\<close> is at
  least the number of connections on the interest list and at most \<^verbatim>\<open>peak_connections\<close>.
\<close>

definition clients :: "os \<Rightarrow> c_int set" where
  "clients w = {d. \<exists>i. epoll_interest w d = Some (Some i)}"

definition ultra_inv :: "ultra_server \<times> os \<Rightarrow> bool" where
  "ultra_inv = (\<lambda>(s, w).
     finite (dom (epoll_interest w))
     \<and> (\<forall>d i. epoll_interest w d = Some (Some i) \<longrightarrow>
           i < length (u_connections s) \<and> u_fd (u_connections s ! i) = d)
     \<and> (u_peak_connections (u_stats s) = - 1
        \<or> (card (clients w) \<le> unat (active_connections (u_stats s))
           \<and> active_connections (u_stats s) \<le> u_peak_connections (u_stats s))))"

definition hft_inv :: "'d hft_server \<times> os \<Rightarrow> bool" where
  "hft_inv = (\<lambda>(s, w).
     distinct (map fst (connections s))
     \<and> of_nat (length (connections s)) \<le> peak_connections (stats s))"

section \<open>Concrete servers\<close>

text \<open>
  Inputs for the closed theorems: an HFTServer that runs with one worker, one client on
  descriptor 5 and an order service; an UltraHFTServer in the same situation.
\<close>

definition ema_demo :: "int \<Rightarrow> int \<Rightarrow> int" where
  "ema_demo avg latency = (99 * avg + latency) div 100"

definition layout_demo :: layout where
  "layout_demo = \<lparr>sizeof_Message = 1064, sizeof_OrderMessage = 1128,
                   sizeof_MarketDataMessage = 1152, sizeof_UltraMessage = 1088\<rparr>"

definition os_demo :: os where
  "os_demo = \<lparr>open_fds = {3, 4, 5},
              epoll_interest = [3 \<mapsto> None, 5 \<mapsto> Some 0],
              joined = {}, sent = [], delivered = [],
              clock = (\<lambda>n. of_nat (1000 * n)), reads = 0\<rparr>"

definition authenticate :: service where
  "authenticate msg conn = conn\<lparr>is_authenticated := True\<rparr>"

definition hft_demo :: "int hft_server" where
  "hft_demo = \<lparr>running = True, server_socket = 3, epoll_fd = 4,
               worker_threads = [\<lparr>tid = 1, joinable = True\<rparr>],
               connections = [(5, Connection\<lparr>fd := 5\<rparr>)],
               services = [ORDER_NEW \<mapsto> authenticate],
               stats = \<lparr>total_messages_processed = 0, total_connections = 1,
                        avg_latency_us = 0, peak_connections = 1\<rparr>\<rparr>"

definition heartbeat_demo :: message where
  "heartbeat_demo = Message\<lparr>message_id := 1, timestamp := 1\<rparr>"

definition UltraMessage :: ultra_message where
  "UltraMessage = \<lparr>u_message_id = 0, u_timestamp = 0, u_message_type = 0,
                   u_payload_size = 0, u_payload = replicate 1024 0\<rparr>"

definition ultra_demo :: ultra_server where
  "ultra_demo = \<lparr>send_buffer = replicate 1024 UltraMessage,
                 recv_buffer = replicate 1024 UltraMessage,
                 send_buffer_index = 0, recv_buffer_index = 0,
                 u_running = True, u_server_socket = 3, u_epoll_fd = 4,
                 u_worker_threads = [\<lparr>tid = 1, joinable = True\<rparr>],
                 u_connections = [UltraConnection\<lparr>u_fd := 5\<rparr>],
                 connection_count = 1,
                 u_stats = \<lparr>total_messages = 0, active_connections = 1,
                          u_peak_connections = 1, total_latency = 0, message_count = 0\<rparr>\<rparr>"

text \<open>An HFTServer after \<open>initialize\<close> and before \<open>start\<close>.\<close>

definition os_initialized :: os where
  "os_initialized = \<lparr>open_fds = {3, 4}, epoll_interest = [3 \<mapsto> None],
                     joined = {}, sent = [], delivered = [],
                     clock = (\<lambda>n. of_nat (1000 * n)), reads = 0\<rparr>"

definition hft_initialized :: "int hft_server" where
  "hft_initialized = \<lparr>running = False, server_socket = 3, epoll_fd = 4,
                      worker_threads = [], connections = [],
                      services = [ORDER_NEW \<mapsto> authenticate],
                      stats = \<lparr>total_messages_processed = 0, total_connections = 0,
                               avg_latency_us = 0, peak_connections = 0\<rparr>\<rparr>"

text \<open>The same server after \<open>start\<close> with one worker.\<close>

definition hft_started :: "int hft_server" where
  "hft_started = hft_initialized\<lparr>running := True,
                                  worker_threads := [\<lparr>tid = 1, joinable = True\<rparr>]\<rparr>"

text \<open>A new order that declares a payload of 2000 bytes.\<close>

definition oversized_demo :: message where
  "oversized_demo = Message\<lparr>message_id := 7, timestamp := 9, message_type := ORDER_NEW,
                            payload_size := 2000\<rparr>"

text \<open>
  A connected socket on a descriptor, and one whose \<^verbatim>\<open>setsockopt\<close> calls fail; an
  UltraHFTServer that runs and has no connection yet.
\<close>

definition accepted_demo :: "c_int \<Rightarrow> accepted" where
  "accepted_demo d = \<lparr>a_fd = d, a_addr = \<lparr>sin_addr = 0x7F000001, sin_port = 40000\<rparr>,
                      a_sockopts = True, a_nonblocking = True, a_epoll_add = True,
                      a_object = 0x1000\<rparr>"

definition refused_demo :: "c_int \<Rightarrow> accepted" where
  "refused_demo d = (accepted_demo d)\<lparr>a_sockopts := False\<rparr>"

definition ultra_initialized :: ultra_server where
  "ultra_initialized = ultra_demo\<lparr>u_connections := [], connection_count := 0,
                          u_stats := \<lparr>total_messages = 0, active_connections = 0,
                                      u_peak_connections = 0, total_latency = 0,
                                      message_count = 0\<rparr>\<rparr>"

text \<open>
  Sequences of events for UltraHFTServer. On the server with a client on descriptor 5:
  a connection that the listener reports is refused for its socket options, the client
  closes its end, and the server is stopped. On the server without connections: the
  listener reports three pending connections, the first of which is refused.
\<close>

definition ultra_events_demo :: "ultra_event list" where
  "ultra_events_demo =
     [Ultra_ready 3 [Accept_ok (refused_demo 6)] [], Ultra_ready 5 [] [Recv_eof], Ultra_stop]"

definition ultra_accept_events_demo :: "ultra_event list" where
  "ultra_accept_events_demo =
     [Ultra_ready 3 [Accept_ok (refused_demo 6), Accept_ok (accepted_demo 5),
                     Accept_ok (accepted_demo 7)] [],
      Ultra_ready 5 [] [Recv_eof]]"

text \<open>
  For HFTServer: two clients connect, on descriptors 5 and 6, and the first one closes
  its end.
\<close>

definition hft_events_demo :: "hft_event list" where
  "hft_events_demo =
     [Hft_accept [Accept_ok (accepted_demo 5)], Hft_accept [Accept_ok (accepted_demo 6)],
      Hft_client 5 [Recv_eof]]"

section \<open>Theorems\<close>

subsection \<open>Message::clear\<close>

text \<open>
  C9. For every message \<open>m\<close>, \<open>clear m\<close> is the default-constructed message: the
  identifiers, the timestamp, the sequence number and the payload size are 0, the type
  is HEARTBEAT, the status is PENDING and the payload is 1024 zero bytes; clearing
  twice is clearing once.
\<close>

theorem clear_is_default:
  "clear m = Message
   \<and> message_id (clear m) = 0 \<and> timestamp (clear m) = 0 \<and> sequence_number (clear m) = 0
   \<and> source_id (clear m) = 0 \<and> destination_id (clear m) = 0 \<and> payload_size (clear m) = 0
   \<and> message_type (clear m) = HEARTBEAT \<and> status (clear m) = PENDING
   \<and> payload (clear m) = replicate 1024 0
   \<and> clear (clear m) = clear m"
  by (simp add: clear_def Message_def payload_capacity_def)

subsection \<open>UltraServerStats::get_average_latency\<close>

text \<open>
  C10. \<open>get_average_latency\<close> returns 0.0 when \<open>message_count\<close> is zero and the
  quotient of \<open>total_latency\<close> by \<open>message_count\<close> otherwise; it never takes a
  quotient with a zero divisor (the result is never \<open>None\<close>), in every state of the
  statistics.
\<close>

theorem get_average_latency_guarded:
  "get_average_latency zero cast quot s =
     Some (if message_count s = 0 then zero
           else quot (cast (total_latency s)) (cast (message_count s)))"
  by (simp add: get_average_latency_def double_div_def Let_def)

subsection \<open>The buffer pool\<close>

lemma slot_mod: "unat (c + of_nat k :: u64) mod 1024 = (unat c + k) mod 1024"
proof -
  have "unat (c + of_nat k :: u64) = (unat c + k) mod 2 ^ 64"
    by (simp add: unat_word_ariths unat_of_nat mod_add_right_eq)
  moreover have "((unat c + k) mod 2 ^ 64) mod 1024 = (unat c + k) mod 1024"
    by (rule mod_mod_cancel) simp
  ultimately show ?thesis by simp
qed

lemma slot_succ:
  "(unat (c + 1 :: u64) + k) mod buffer_slots = (unat c + Suc k) mod buffer_slots"
proof -
  have "unat (c + of_nat 1) mod 1024 = (unat c + 1) mod 1024"
    by (rule slot_mod)
  then have "(unat (c + 1) mod 1024 + k) mod 1024 = ((unat c + 1) mod 1024 + k) mod 1024"
    by simp
  then show ?thesis
    by (simp add: buffer_slots_def mod_add_left_eq)
qed

lemma next_send_buffers_eq:
  "fst (next_send_buffers n s) =
     map (\<lambda>k. (unat (send_buffer_index s) + k) mod buffer_slots) [0..<n]"
proof (induction n arbitrary: s)
  case 0
  show ?case by simp
next
  case (Suc n)
  have "fst (next_send_buffers (Suc n) s) =
          (unat (send_buffer_index s) mod buffer_slots) #
          fst (next_send_buffers n (s\<lparr>send_buffer_index := send_buffer_index s + 1\<rparr>))"
    by (simp add: get_next_send_buffer_def split: prod.splits)
  also have "\<dots> = (unat (send_buffer_index s) mod buffer_slots) #
          map (\<lambda>k. (unat (send_buffer_index s + 1) + k) mod buffer_slots) [0..<n]"
    by (simp add: Suc.IH)
  also have "\<dots> = map (\<lambda>k. (unat (send_buffer_index s) + k) mod buffer_slots) [0..<Suc n]"
    by (simp add: slot_succ upt_rec[of 0 "Suc n"] map_Suc_upt[symmetric] del: upt_Suc)
  finally show ?case .
qed

lemma next_recv_buffers_eq:
  "fst (next_recv_buffers n s) =
     map (\<lambda>k. (unat (recv_buffer_index s) + k) mod buffer_slots) [0..<n]"
proof (induction n arbitrary: s)
  case 0
  show ?case by simp
next
  case (Suc n)
  have "fst (next_recv_buffers (Suc n) s) =
          (unat (recv_buffer_index s) mod buffer_slots) #
          fst (next_recv_buffers n (s\<lparr>recv_buffer_index := recv_buffer_index s + 1\<rparr>))"
    by (simp add: get_next_recv_buffer_def split: prod.splits)
  also have "\<dots> = (unat (recv_buffer_index s) mod buffer_slots) #
          map (\<lambda>k. (unat (recv_buffer_index s + 1) + k) mod buffer_slots) [0..<n]"
    by (simp add: Suc.IH)
  also have "\<dots> = map (\<lambda>k. (unat (recv_buffer_index s) + k) mod buffer_slots) [0..<Suc n]"
    by (simp add: slot_succ upt_rec[of 0 "Suc n"] map_Suc_upt[symmetric] del: upt_Suc)
  finally show ?case .
qed

lemma mod_shift_inj:
  fixes a x y m :: nat
  assumes "x \<le> y" "y < m" "(a + x) mod m = (a + y) mod m"
  shows "x = y"
proof -
  have "a + x \<le> a + y" using assms(1) by simp
  then have "(a + y) mod m = (a + x) mod m \<longleftrightarrow> m dvd (a + y) - (a + x)"
    by (rule mod_eq_dvd_iff_nat)
  with assms(3) have "m dvd (a + y) - (a + x)" by simp
  then have "m dvd y - x" by simp
  moreover have "y - x < m" using assms(2) by simp
  ultimately have "y - x = 0" by (meson dvd_imp_le not_less zero_less_iff_neq_zero)
  with assms(1) show ?thesis by simp
qed

lemma distinct_slots:
  assumes n: "n \<le> m"
  shows "distinct (map (\<lambda>k. (a + k) mod m) [0..<n])"
proof -
  have "inj_on (\<lambda>k. (a + k) mod m) {0..<n}"
  proof (rule inj_onI)
    fix x y
    assume x: "x \<in> {0..<n}" and y: "y \<in> {0..<n}"
      and e: "(a + x) mod m = (a + y) mod m"
    show "x = y"
    proof (cases "x \<le> y")
      case True
      moreover have "y < m" using y n by simp
      ultimately show ?thesis using e by (rule mod_shift_inj)
    next
      case False
      then have "y \<le> x" by simp
      moreover have "x < m" using x n by simp
      ultimately have "y = x" using e [symmetric] by (rule mod_shift_inj)
      then show ?thesis by simp
    qed
  qed
  then show ?thesis by (simp add: distinct_map)
qed

text \<open>
  C8. A call of \<open>get_next_send_buffer\<close> or \<open>get_next_recv_buffer\<close> adds one to its
  counter (a 64-bit counter, so modulo \<open>2 ^ 64\<close>), changes nothing else and returns
  the slot whose index is the previous value of the counter modulo the 1024 slots, an
  index inside the array; the 1024 slots returned by 1024 consecutive calls, from any
  value of the counter, are pairwise distinct.
\<close>

theorem next_buffer_round_robin:
  "get_next_send_buffer s =
     (unat (send_buffer_index s) mod 1024, s\<lparr>send_buffer_index := send_buffer_index s + 1\<rparr>)
   \<and> get_next_recv_buffer s =
     (unat (recv_buffer_index s) mod 1024, s\<lparr>recv_buffer_index := recv_buffer_index s + 1\<rparr>)
   \<and> fst (get_next_send_buffer s) < buffer_slots
   \<and> fst (get_next_recv_buffer s) < buffer_slots
   \<and> length (fst (next_send_buffers buffer_slots s)) = buffer_slots
   \<and> distinct (fst (next_send_buffers buffer_slots s))
   \<and> length (fst (next_recv_buffers buffer_slots s)) = buffer_slots
   \<and> distinct (fst (next_recv_buffers buffer_slots s))"
proof -
  have a: "get_next_send_buffer s =
     (unat (send_buffer_index s) mod 1024, s\<lparr>send_buffer_index := send_buffer_index s + 1\<rparr>)"
    by (simp add: get_next_send_buffer_def buffer_slots_def)
  have b: "get_next_recv_buffer s =
     (unat (recv_buffer_index s) mod 1024, s\<lparr>recv_buffer_index := recv_buffer_index s + 1\<rparr>)"
    by (simp add: get_next_recv_buffer_def buffer_slots_def)
  have c: "fst (get_next_send_buffer s) < buffer_slots"
    by (simp add: get_next_send_buffer_def buffer_slots_def)
  have d: "fst (get_next_recv_buffer s) < buffer_slots"
    by (simp add: get_next_recv_buffer_def buffer_slots_def)
  have e: "length (fst (next_send_buffers buffer_slots s)) = buffer_slots"
    by (simp add: next_send_buffers_eq)
  have f: "distinct (fst (next_send_buffers buffer_slots s))"
    by (simp only: next_send_buffers_eq) (rule distinct_slots, simp)
  have g: "length (fst (next_recv_buffers buffer_slots s)) = buffer_slots"
    by (simp add: next_recv_buffers_eq)
  have h: "distinct (fst (next_recv_buffers buffer_slots s))"
    by (simp only: next_recv_buffers_eq) (rule distinct_slots, simp)
  from a b c d e f g h show ?thesis by blast
qed

subsection \<open>LockFreeRingBuffer\<close>

lemma and_pred_even:
  fixes m :: nat
  assumes "0 < m"
  shows "(2 * m) AND (2 * m - 1) = 2 * (m AND (m - 1))"
proof -
  have a: "(2 * m) mod 2 = 0" "(2 * m) div 2 = m" by simp_all
  have b: "(2 * m - 1) div 2 = m - 1" using assms by (cases m) simp_all
  have c: "2 * m \<noteq> 0" "2 * m - 1 \<noteq> 0" using assms by simp_all
  show ?thesis
    by (subst and_nat_unfold) (simp only: a b c, simp)
qed

lemma and_pred_odd:
  fixes m :: nat
  shows "(2 * m + 1) AND (2 * m + 1 - 1) = 2 * m"
proof (cases "m = 0")
  case True
  then show ?thesis by simp
next
  case False
  have a: "(2 * m + 1) div 2 = m" "(2 * m) div 2 = m" "(2 * m) mod 2 = 0" by simp_all
  have "(2 * m + 1) AND (2 * m) = 2 * (m AND m)"
    using False by (subst and_nat_unfold) (simp only: a, simp)
  then show ?thesis by simp
qed

lemma and_pred_zero_iff:
  fixes n :: nat
  shows "0 < n \<and> n AND (n - 1) = 0 \<longleftrightarrow> (\<exists>k. n = 2 ^ k)"
proof (induction n rule: less_induct)
  case (less n)
  show ?case
  proof (cases "n = 0")
    case True
    then show ?thesis by simp
  next
    case n0: False
    show ?thesis
    proof (cases "even n")
      case True
      then obtain m where n: "n = 2 * m" by (elim evenE)
      with n0 have m: "0 < m" "m < n" by simp_all
      have "n AND (n - 1) = 0 \<longleftrightarrow> m AND (m - 1) = 0"
        unfolding n using and_pred_even[OF m(1)] by simp
      with less.IH[OF m(2)] m(1) n0
      have "0 < n \<and> n AND (n - 1) = 0 \<longleftrightarrow> (\<exists>k. m = 2 ^ k)" by simp
      also have "\<dots> \<longleftrightarrow> (\<exists>k. n = 2 ^ k)"
      proof
        assume "\<exists>k. m = 2 ^ k"
        then obtain k where "m = 2 ^ k" ..
        then have "n = 2 ^ Suc k" by (simp add: n)
        then show "\<exists>k. n = 2 ^ k" ..
      next
        assume "\<exists>k. n = 2 ^ k"
        then obtain k where k: "n = 2 ^ k" ..
        with True have "k \<noteq> 0" by (cases k) auto
        then obtain j where "k = Suc j" by (cases k) auto
        with k n have "m = 2 ^ j" by simp
        then show "\<exists>k. m = 2 ^ k" ..
      qed
      finally show ?thesis .
    next
      case False
      then obtain m where n: "n = 2 * m + 1" by (elim oddE)
      have "n AND (n - 1) = 2 * m" unfolding n by (rule and_pred_odd)
      then have "0 < n \<and> n AND (n - 1) = 0 \<longleftrightarrow> n = 1" using n by auto
      also have "\<dots> \<longleftrightarrow> (\<exists>k. n = 2 ^ k)"
      proof
        assume "n = 1"
        then have "n = 2 ^ 0" by simp
        then show "\<exists>k. n = 2 ^ k" ..
      next
        assume "\<exists>k. n = 2 ^ k"
        then obtain k where k: "n = 2 ^ k" ..
        with False have "k = 0" by (cases k) auto
        with k show "n = 1" by simp
      qed
      finally show ?thesis .
    qed
  qed
qed


lemma of_nat_u64_eq_0: "n < 2 ^ 64 \<Longrightarrow> (of_nat n :: u64) = 0 \<longleftrightarrow> n = 0"
  by (auto simp: word_of_nat_eq_0_iff dest: dvd_imp_le)

lemma and_pred_u64:
  assumes "0 < n" "n < 2 ^ 64"
  shows "(of_nat n :: u64) AND (of_nat n - 1) = 0 \<longleftrightarrow> n AND (n - 1) = 0"
proof -
  have "(of_nat n :: u64) - 1 = of_nat (n - 1)" using assms(1) by simp
  then have "(of_nat n :: u64) AND (of_nat n - 1) = of_nat (n AND (n - 1))"
    by (simp add: of_nat_and_eq)
  moreover have "int (n AND (n - 1)) \<le> int n"
    by (simp only: of_nat_and_eq) (rule AND_upper1, simp)
  then have "n AND (n - 1) < 2 ^ 64" using assms(2) by simp
  ultimately show ?thesis by (simp add: of_nat_u64_eq_0)
qed

lemma static_assert_iff: "static_assert n \<longleftrightarrow> power_of_two n"
proof
  assume a: "static_assert n"
  then have n: "n < 2 ^ 64" "0 < n"
    by (auto simp: static_assert_def word_greater_zero_iff of_nat_u64_eq_0 intro: gr0I)
  from a have "(of_nat n :: u64) AND (of_nat n - 1) = 0" by (simp add: static_assert_def)
  with and_pred_u64[OF n(2) n(1)] have "n AND (n - 1) = 0" by simp
  with n(2) have "0 < n \<and> n AND (n - 1) = 0" ..
  then have "\<exists>k. n = 2 ^ k" by (simp only: and_pred_zero_iff)
  then obtain k where k: "n = 2 ^ k" ..
  with n(1) have "(2::nat) ^ k < 2 ^ 64" by simp
  then have "k < 64" by (rule power_less_imp_less_exp[rotated]) simp
  with k show "power_of_two n" by (auto simp: power_of_two_def)
next
  assume "power_of_two n"
  then obtain k where k: "k < 64" "n = 2 ^ k" by (auto simp: power_of_two_def)
  have "(2::nat) ^ k < 2 ^ 64" using k(1) by (intro power_strict_increasing) simp_all
  with k have n: "n < 2 ^ 64" "0 < n" by simp_all
  moreover have "n AND (n - 1) = 0"
  proof -
    from k(2) have "\<exists>k. n = 2 ^ k" ..
    then have "0 < n \<and> n AND (n - 1) = 0" by (simp only: and_pred_zero_iff)
    then show ?thesis ..
  qed
  ultimately show "static_assert n"
    by (simp add: static_assert_def and_pred_u64 word_greater_zero_iff of_nat_u64_eq_0)
qed

lemma sz_cases:
  fixes h t N :: nat
  assumes "h < N" "t < N"
  shows "(t + N - h) mod N = (if h \<le> t then t - h else t + N - h)"
  using assms by (auto simp: mod_if)

lemma MASK_mask: "SIZE r = 2 ^ k \<Longrightarrow> MASK r = mask k"
  by (simp add: MASK_def mask_eq_decr_exp)

lemma unat_and_mask_mod: "unat ((w::u64) AND mask k) = unat w mod 2 ^ k"
proof -
  have "unat (w AND mask k) = unat (take_bit k w)"
    by (simp only: take_bit_eq_mask)
  also have "\<dots> = take_bit k (unat w)"
    by (rule unsigned_take_bit_eq)
  also have "\<dots> = unat w mod 2 ^ k"
    by (rule take_bit_eq_mod)
  finally show ?thesis .
qed

lemma unat_succ_mask:
  assumes "k < 64"
  shows "unat (((w::u64) + 1) AND mask k) = (unat w + 1) mod 2 ^ k"
proof -
  have "unat (w + 1) = (unat w + 1) mod 2 ^ 64"
    by (simp add: unat_word_ariths)
  moreover have "((unat w + 1) mod 2 ^ 64) mod 2 ^ k = (unat w + 1) mod 2 ^ k"
    using assms by (intro mod_mod_cancel le_imp_power_dvd) simp
  ultimately show ?thesis by (simp add: unat_and_mask_mod)
qed

lemma unat_diff_mask:
  assumes k: "k < 64" and h: "unat h < 2 ^ k" and t: "unat t < 2 ^ k"
  shows "unat (((t::u64) - h) AND mask k) = (unat t + 2 ^ k - unat h) mod 2 ^ k"
proof (cases "unat h \<le> unat t")
  case True
  then have "unat (t - h) = unat t - unat h"
    by (simp add: unat_sub_if')
  moreover have "(unat t + 2 ^ k - unat h) mod 2 ^ k = unat t - unat h"
    using True h t by (simp add: sz_cases)
  moreover have "unat t - unat h < 2 ^ k" using t by simp
  ultimately show ?thesis by (simp add: unat_and_mask_mod)
next
  case False
  have le: "(2::nat) ^ k \<le> 2 ^ 64" using k by (intro power_increasing) simp_all
  have d: "(2::nat) ^ k dvd 2 ^ 64 - 2 ^ k"
    using k by (intro dvd_diff_nat le_imp_power_dvd) simp_all
  from False have "unat (t - h) = unat t + 2 ^ 64 - unat h"
    by (simp add: unat_sub_if')
  also have "\<dots> = (unat t + 2 ^ k - unat h) + (2 ^ 64 - 2 ^ k)"
    using le h by simp
  finally have "unat (t - h) mod 2 ^ k = ((unat t + 2 ^ k - unat h) + (2 ^ 64 - 2 ^ k)) mod 2 ^ k"
    by simp
  also have "\<dots> = (unat t + 2 ^ k - unat h) mod 2 ^ k"
    using d by (metis mod_add_right_eq dvd_imp_mod_0 add.right_neutral)
  finally show ?thesis by (simp add: unat_and_mask_mod)
qed

lemma seg_snoc:
  assumes "n < N" "N = length b"
  shows "seg (b[(H + n) mod N := x]) H (Suc n) N = seg b H n N @ [x]"
proof -
  have N: "0 < N" using assms(1) by simp
  have "\<And>i. i < n \<Longrightarrow> (H + n) mod N \<noteq> (H + i) mod N"
  proof
    fix i assume "i < n" and e: "(H + n) mod N = (H + i) mod N"
    then have "i \<le> n" by simp
    then have "i = n" using assms(1) e [symmetric] by (rule mod_shift_inj)
    with \<open>i < n\<close> show False by simp
  qed
  then have "\<And>i. i < n \<Longrightarrow> b[(H + n) mod N := x] ! ((H + i) mod N) = b ! ((H + i) mod N)"
    by (rule nth_list_update_neq)
  then have "map (\<lambda>i. b[(H + n) mod N := x] ! ((H + i) mod N)) [0..<n] = map (\<lambda>i. b ! ((H + i) mod N)) [0..<n]"
    by simp
  moreover have "b[(H + n) mod N := x] ! ((H + n) mod N) = x"
    using N assms(2) by simp
  ultimately show ?thesis by (simp add: seg_def)
qed

lemma seg_Cons:
  assumes "0 < n" "0 < N"
  shows "seg b H n N = b ! (H mod N) # seg b ((H + 1) mod N) (n - 1) N"
proof -
  from assms(1) obtain m where n: "n = Suc m" by (cases n) auto
  have "[0..<Suc m] = 0 # map Suc [0..<m]"
    by (simp add: upt_rec[of 0 "Suc m"] map_Suc_upt del: upt_Suc)
  then have "seg b H (Suc m) N = b ! (H mod N) # map (\<lambda>i. b ! ((H + Suc i) mod N)) [0..<m]"
    by (simp add: seg_def comp_def del: upt_Suc)
  moreover have "\<And>i. ((H + 1) mod N + i) mod N = (H + Suc i) mod N"
    by (simp add: mod_add_left_eq)
  ultimately show ?thesis by (simp add: seg_def n)
qed

lemma ring_wf_size:
  assumes "ring_wf r"
  shows "unat (size_ring r) = (unat (tail r) + SIZE r - unat (head r)) mod SIZE r"
proof -
  from assms obtain k where k: "k < 64" "SIZE r = 2 ^ k" by (auto simp: ring_wf_def static_assert_iff power_of_two_def)
  with assms show ?thesis
    by (simp add: size_ring_def MASK_mask[OF k(2)] unat_diff_mask ring_wf_def)
qed

lemma ring_wf_succ:
  assumes "ring_wf r"
  shows "unat ((w + 1) AND MASK r) = (unat w + 1) mod SIZE r"
proof -
  from assms obtain k where k: "k < 64" "SIZE r = 2 ^ k" by (auto simp: ring_wf_def static_assert_iff power_of_two_def)
  then show ?thesis by (simp add: MASK_mask[OF k(2)] unat_succ_mask)
qed

lemma ring_wf_pos: "ring_wf r \<Longrightarrow> 0 < SIZE r"
  by (auto simp: ring_wf_def static_assert_iff power_of_two_def)

lemma size_plus_head:
  assumes "ring_wf r"
  shows "(unat (head r) + unat (size_ring r)) mod SIZE r = unat (tail r)"
  using assms by (auto simp: ring_wf_size sz_cases ring_wf_def)

lemma size_lt: "ring_wf r \<Longrightarrow> unat (size_ring r) < SIZE r"
  by (simp add: ring_wf_size ring_wf_pos)

lemma stored_seg: "stored r = seg (buffer r) (unat (head r)) (unat (size_ring r)) (SIZE r)"
  by (simp add: stored_def seg_def)

lemma length_stored: "length (stored r) = unat (size_ring r)"
  by (simp add: stored_def)

lemma empty_iff_size: "ring_wf r \<Longrightarrow> empty_ring r \<longleftrightarrow> unat (size_ring r) = 0"
  by (auto simp: ring_wf_size sz_cases ring_wf_def empty_ring_def word_unat_eq_iff)

lemma full_iff_size:
  assumes "ring_wf r"
  shows "full_ring r \<longleftrightarrow> unat (size_ring r) = SIZE r - 1"
proof -
  have "full_ring r \<longleftrightarrow> (unat (tail r) + 1) mod SIZE r = unat (head r)"
    by (simp add: full_ring_def word_unat_eq_iff ring_wf_succ[OF assms])
  also have "\<dots> \<longleftrightarrow> unat (size_ring r) = SIZE r - 1"
    using assms by (auto simp: ring_wf_size sz_cases ring_wf_def mod_if)
  finally show ?thesis .
qed

lemma mod_shift_eq:
  fixes a x y m :: nat
  assumes "x < m" "y < m" "(a + x) mod m = (a + y) mod m"
  shows "x = y"
proof (cases "x \<le> y")
  case True
  then show ?thesis using assms(2,3) by (rule mod_shift_inj)
next
  case False
  then have "y \<le> x" by simp
  then have "y = x" using assms(1) assms(3) [symmetric] by (rule mod_shift_inj)
  then show ?thesis by simp
qed

lemma push_not_full:
  assumes wf: "ring_wf r" and nf: "\<not> full_ring r"
  shows "fst (push x r) = True \<and> ring_wf (snd (push x r))
         \<and> SIZE (snd (push x r)) = SIZE r
         \<and> stored (snd (push x r)) = stored r @ [x]"
proof -
  let ?N = "SIZE r" and ?H = "unat (head r)" and ?T = "unat (tail r)"
  let ?n = "unat (size_ring r)"
  define r' where "r' = r\<lparr>buffer := (buffer r)[?T := x], tail := (tail r + 1) AND MASK r\<rparr>"
  have p: "push x r = (True, r')"
    using nf by (simp add: push_def full_ring_def r'_def Let_def)
  have S: "SIZE r' = ?N" by (simp add: r'_def SIZE_def)
  have M: "MASK r' = MASK r" by (simp add: MASK_def S)
  have N: "0 < ?N" using wf by (rule ring_wf_pos)
  have T': "unat (tail r') = (?T + 1) mod ?N"
    by (simp add: r'_def ring_wf_succ[OF wf])
  have H': "head r' = head r" by (simp add: r'_def)
  have wf': "ring_wf r'"
    using wf N by (simp add: ring_wf_def S T' H')
  have n: "?n < ?N - 1"
    using size_lt[OF wf] nf full_iff_size[OF wf] by simp
  have "(?H + unat (size_ring r')) mod ?N = unat (tail r')"
    using size_plus_head[OF wf'] by (simp add: S H')
  also have "\<dots> = ((?H + ?n) mod ?N + 1) mod ?N"
    by (simp add: T' size_plus_head[OF wf])
  also have "\<dots> = (?H + Suc ?n) mod ?N"
    by (simp add: mod_Suc_eq)
  finally have "(?H + unat (size_ring r')) mod ?N = (?H + Suc ?n) mod ?N" .
  moreover have "unat (size_ring r') < ?N" using size_lt[OF wf'] by (simp add: S)
  moreover have "Suc ?n < ?N" using n by simp
  ultimately have n': "unat (size_ring r') = Suc ?n" by (rule mod_shift_eq[rotated 2])
  have "stored r' = seg ((buffer r)[(?H + ?n) mod ?N := x]) ?H (Suc ?n) ?N"
    by (simp add: stored_seg n' S H') (simp add: r'_def size_plus_head[OF wf])
  also have "\<dots> = seg (buffer r) ?H ?n ?N @ [x]"
    using n by (intro seg_snoc) (simp_all add: SIZE_def)
  finally have "stored r' = stored r @ [x]" by (simp add: stored_seg)
  with p wf' S show ?thesis by simp
qed

lemma pop_not_empty:
  assumes wf: "ring_wf r" and ne: "\<not> empty_ring r"
  shows "\<exists>y. fst (pop r) = Some y \<and> ring_wf (snd (pop r))
         \<and> SIZE (snd (pop r)) = SIZE r
         \<and> stored r = y # stored (snd (pop r))"
proof -
  let ?N = "SIZE r" and ?H = "unat (head r)" and ?T = "unat (tail r)"
  let ?n = "unat (size_ring r)"
  define r' where "r' = r\<lparr>head := (head r + 1) AND MASK r\<rparr>"
  have p: "pop r = (Some (buffer r ! ?H), r')"
    using ne by (simp add: pop_def empty_ring_def r'_def Let_def)
  have S: "SIZE r' = ?N" by (simp add: r'_def SIZE_def)
  have N: "0 < ?N" using wf by (rule ring_wf_pos)
  have H': "unat (head r') = (?H + 1) mod ?N"
    by (simp add: r'_def ring_wf_succ[OF wf])
  have T': "tail r' = tail r" by (simp add: r'_def)
  have B': "buffer r' = buffer r" by (simp add: r'_def)
  have wf': "ring_wf r'"
    using wf N by (simp add: ring_wf_def S T' H')
  have n: "0 < ?n" using ne empty_iff_size[OF wf] by simp
  have Hm: "?H mod ?N = ?H" using wf by (simp add: ring_wf_def)
  have "((?H + 1) + unat (size_ring r')) mod ?N = ((?H + 1) mod ?N + unat (size_ring r')) mod ?N"
    by (simp add: mod_add_left_eq)
  also have "\<dots> = ?T"
    using size_plus_head[OF wf'] by (simp add: S H' T')
  also have "\<dots> = (?H + ?n) mod ?N"
    by (simp add: size_plus_head[OF wf])
  also have "\<dots> = ((?H + 1) + (?n - 1)) mod ?N"
    using n by simp
  finally have "((?H + 1) + unat (size_ring r')) mod ?N = ((?H + 1) + (?n - 1)) mod ?N" .
  moreover have "unat (size_ring r') < ?N" using size_lt[OF wf'] by (simp add: S)
  moreover have "?n - 1 < ?N" using size_lt[OF wf] by simp
  ultimately have n': "unat (size_ring r') = ?n - 1" by (rule mod_shift_eq[rotated 2])
  have "stored r = buffer r ! (?H mod ?N) # seg (buffer r) ((?H + 1) mod ?N) (?n - 1) ?N"
    unfolding stored_seg using n N by (rule seg_Cons)
  also have "\<dots> = buffer r ! ?H # stored r'"
    by (simp add: stored_seg n' S H' B' Hm)
  finally show ?thesis using p wf' S by simp
qed

lemma run_ops_refines:
  assumes "ring_wf r" "length (stored r) + length (pushes ops) \<le> capacity_ring r"
  shows "ring_wf (snd (snd (run_ops ops r)))
         \<and> stored r @ pushes ops = fst (snd (run_ops ops r)) @ stored (snd (snd (run_ops ops r)))"
  using assms
proof (induction ops arbitrary: r)
  case Nil
  then show ?case by simp
next
  case (Cons op ops)
  show ?case
  proof (cases op)
    case (Push x)
    have "length (stored r) < SIZE r - 1"
      using Cons.prems(2) Push by (simp add: capacity_ring_def)
    then have nf: "\<not> full_ring r"
      using full_iff_size[OF Cons.prems(1)] by (simp add: length_stored)
    note P = push_not_full[OF Cons.prems(1) nf, of x]
    obtain ok r1 where p: "push x r = (ok, r1)" by (cases "push x r")
    with P have r1: "ring_wf r1" "SIZE r1 = SIZE r" "stored r1 = stored r @ [x]" by simp_all
    have "length (stored r1) + length (pushes ops) \<le> capacity_ring r1"
      using Cons.prems(2) r1 Push by (simp add: capacity_ring_def)
    with Cons.IH[OF r1(1)] r1 p Push show ?thesis
      by (simp add: case_prod_beta)
  next
    case Pop
    show ?thesis
    proof (cases "empty_ring r")
      case True
      then have p: "pop r = (None, r)" by (simp add: pop_def empty_ring_def)
      have "length (stored r) + length (pushes ops) \<le> capacity_ring r"
        using Cons.prems(2) Pop by simp
      with Cons.IH[OF Cons.prems(1)] p Pop show ?thesis
        by (simp add: case_prod_beta)
    next
      case False
      from pop_not_empty[OF Cons.prems(1) False]
      obtain y r1 where p: "pop r = (Some y, r1)"
        and r1: "ring_wf r1" "SIZE r1 = SIZE r" "stored r = y # stored r1"
        by (cases "pop r") auto
      have "length (stored r1) + length (pushes ops) \<le> capacity_ring r1"
        using Cons.prems(2) r1 Pop by (simp add: capacity_ring_def)
      with Cons.IH[OF r1(1)] r1 p Pop show ?thesis
        by (simp add: case_prod_beta)
    qed
  qed
qed

lemma power_of_two_2: "power_of_two (Suc (Suc 0))"
  unfolding power_of_two_def by (rule exI[of _ 1]) simp

lemma power_of_two_4: "power_of_two (Suc (Suc (Suc (Suc 0))))"
  unfolding power_of_two_def by (rule exI[of _ 2]) simp

lemma ring_demo_wf: "ring_wf ring_demo"
  by (simp add: ring_wf_def static_assert_iff ring_demo_def LockFreeRingBuffer_def SIZE_def power_of_two_4)

lemma ring_demo_full_wf: "ring_wf ring_demo_full"
  by (simp add: ring_wf_def static_assert_iff ring_demo_full_def SIZE_def power_of_two_2)

text \<open>
  C1 (as amended). For a well-formed ring of \<open>N = SIZE\<close> slots: \<open>push\<close> returns false
  exactly when the ring is full, which is when \<open>(tail + 1) mod N = head\<close> and when
  \<open>N - 1\<close> items are stored, and then it leaves the ring unchanged; \<open>pop\<close> returns
  false exactly when the ring is empty (\<open>head = tail\<close>), and then it leaves the ring
  unchanged. For every sequence of calls on an empty ring that holds \<open>M\<close> pushes,
  with \<open>M\<close> at most \<open>capacity() = N - 1\<close>, and in which \<open>M\<close> pops return true (a
  pop that returns false hands out no item), the items popped are the items pushed,
  in order, and the ring is empty afterwards.
\<close>

theorem ring_buffer_fifo:
  assumes wf: "ring_wf r"
  shows "(fst (push x r) = False \<longleftrightarrow> full_ring r)
     \<and> (full_ring r \<longleftrightarrow> (unat (tail r) + 1) mod SIZE r = unat (head r))
     \<and> (full_ring r \<longleftrightarrow> length (stored r) = SIZE r - 1)
     \<and> (full_ring r \<longrightarrow> push x r = (False, r))
     \<and> (fst (pop r) = None \<longleftrightarrow> empty_ring r)
     \<and> (empty_ring r \<longleftrightarrow> head r = tail r)
     \<and> (empty_ring r \<longrightarrow> pop r = (None, r))
     \<and> (empty_ring r \<and> length (pushes ops) \<le> capacity_ring r
          \<and> length (fst (snd (run_ops ops r))) = length (pushes ops)
        \<longrightarrow> fst (snd (run_ops ops r)) = pushes ops
            \<and> empty_ring (snd (snd (run_ops ops r))))"
proof -
  have a: "fst (push x r) = False \<longleftrightarrow> full_ring r"
    by (simp add: push_def full_ring_def Let_def)
  have b: "full_ring r \<longleftrightarrow> (unat (tail r) + 1) mod SIZE r = unat (head r)"
    by (simp add: full_ring_def word_unat_eq_iff ring_wf_succ[OF wf])
  have c: "full_ring r \<longleftrightarrow> length (stored r) = SIZE r - 1"
    by (simp add: full_iff_size[OF wf] length_stored)
  have d: "full_ring r \<longrightarrow> push x r = (False, r)"
    by (simp add: push_def full_ring_def Let_def)
  have e: "fst (pop r) = None \<longleftrightarrow> empty_ring r"
    by (simp add: pop_def empty_ring_def Let_def)
  have f: "empty_ring r \<longleftrightarrow> head r = tail r"
    by (simp add: empty_ring_def)
  have g: "empty_ring r \<longrightarrow> pop r = (None, r)"
    by (simp add: pop_def empty_ring_def Let_def)
  have h: "fst (snd (run_ops ops r)) = pushes ops \<and> empty_ring (snd (snd (run_ops ops r)))"
    if e: "empty_ring r" and cap: "length (pushes ops) \<le> capacity_ring r"
      and len: "length (fst (snd (run_ops ops r))) = length (pushes ops)"
  proof -
    let ?out = "fst (snd (run_ops ops r))" and ?r' = "snd (snd (run_ops ops r))"
    have s0: "stored r = []"
      using e empty_iff_size[OF wf] by (simp add: stored_def)
    with cap have "length (stored r) + length (pushes ops) \<le> capacity_ring r" by simp
    from run_ops_refines[OF wf this] s0
    have wf': "ring_wf ?r'" and eq: "pushes ops = ?out @ stored ?r'" by simp_all
    from eq have "length (pushes ops) = length ?out + length (stored ?r')"
      by (metis length_append)
    with len have "stored ?r' = []" by simp
    with eq have "?out = pushes ops" by simp
    moreover from \<open>stored ?r' = []\<close> have "empty_ring ?r'"
      using empty_iff_size[OF wf'] by (simp add: length_stored[symmetric])
    ultimately show ?thesis by simp
  qed
  from a b c d e f g h show ?thesis by blast
qed

theorem ring_buffer_fifo_witness:
  "ring_wf ring_demo \<and> empty_ring ring_demo
   \<and> length (pushes ops_demo) \<le> capacity_ring ring_demo
   \<and> length (fst (snd (run_ops ops_demo ring_demo))) = length (pushes ops_demo)
   \<and> fst (snd (run_ops ops_demo ring_demo)) = [1, 2, 3]
   \<and> empty_ring (snd (snd (run_ops ops_demo ring_demo)))
   \<and> pop ring_demo = (None, ring_demo)
   \<and> ring_wf ring_demo_full \<and> full_ring ring_demo_full
   \<and> push 9 ring_demo_full = (False, ring_demo_full)"
proof -
  have e: "empty_ring ring_demo"
    by (simp add: empty_ring_def ring_demo_def LockFreeRingBuffer_def)
  have c: "length (pushes ops_demo) \<le> capacity_ring ring_demo"
    by (simp add: ops_demo_def capacity_ring_def SIZE_def ring_demo_def LockFreeRingBuffer_def)
  have l: "length (fst (snd (run_ops ops_demo ring_demo))) = length (pushes ops_demo)"
    by (simp add: ops_demo_def ring_demo_def LockFreeRingBuffer_def push_def pop_def
        MASK_def SIZE_def Let_def)
  have p: "pushes ops_demo = [1, 2, 3]"
    by (simp add: ops_demo_def)
  have f: "full_ring ring_demo_full"
    by (simp add: full_ring_def ring_demo_full_def MASK_def SIZE_def)
  from ring_buffer_fifo[OF ring_demo_wf, of 0 ops_demo]
       ring_buffer_fifo[OF ring_demo_full_wf, of 9 "[]"]
       ring_demo_wf ring_demo_full_wf e c l p f
  show ?thesis by simp
qed

text \<open>
  C1 as stated fails where a pop comes before the push it should read: on an empty
  ring of two slots (capacity 1) the sequence pop, push 7 has one push and one pop;
  the pop returns false, nothing is popped and the ring holds 7 afterwards.
\<close>

theorem ring_buffer_pop_first_counterexample:
  "ring_wf ring_two \<and> empty_ring ring_two
   \<and> length (pushes [Pop, Push 7]) = 1 \<and> pops [Pop, Push (7::nat)] = 1
   \<and> 1 \<le> capacity_ring ring_two
   \<and> fst (snd (run_ops [Pop, Push 7] ring_two)) = []
   \<and> pushes [Pop, Push (7::nat)] = [7]
   \<and> \<not> empty_ring (snd (snd (run_ops [Pop, Push 7] ring_two)))"
  by (simp add: ring_wf_def static_assert_iff power_of_two_2 ring_two_def LockFreeRingBuffer_def push_def pop_def
        MASK_def SIZE_def Let_def empty_ring_def capacity_ring_def)

subsection \<open>The dispatcher\<close>

lemma process_client_message_count:
  "total_messages_processed (stats (fst (snd (process_client_message ema msg conn (s, w)))))
     = total_messages_processed (stats s) + 1"
  by (simp add: process_client_message_def now_def Let_def split: option.splits)

lemma process_client_message_absent:
  assumes "services s (message_type msg) = None"
  shows "process_client_message ema msg conn (s, w) =
           (conn,
            s\<lparr>stats := (stats s)\<lparr>total_messages_processed := total_messages_processed (stats s) + 1,
                                 avg_latency_us := ema (avg_latency_us (stats s))
                                     (sint (clock w (Suc (reads w)) - clock w (reads w)))\<rparr>\<rparr>,
            w\<lparr>reads := Suc (Suc (reads w))\<rparr>)"
  using assms by (simp add: process_client_message_def now_def Let_def)

lemma send_response_stats: "u_stats (fst (send_response conn msg (s, w))) = u_stats s"
  by (simp add: send_response_def split: option.splits)

lemma acknowledge_stats: "u_stats (fst (acknowledge a m conn (s, w))) = u_stats s"
  by (simp add: acknowledge_def get_next_send_buffer_def now_def Let_def send_response_stats)

lemma process_message_count:
  "total_messages (u_stats (fst (process_message (Some m) (Some i) (s, w))))
     = total_messages (u_stats s) + 1"
  by (simp add: process_message_def process_order_message_def process_market_data_message_def
      Let_def case_prod_beta acknowledge_stats)

lemma process_message_unknown:
  assumes "u_message_type (recv_buffer s ! m) \<noteq> 1" "u_message_type (recv_buffer s ! m) \<noteq> 2"
  shows "process_message (Some m) (Some i) (s, w) =
           (s\<lparr>u_stats := (u_stats s)\<lparr>total_messages := total_messages (u_stats s) + 1\<rparr>\<rparr>, w)"
  using assms by (simp add: process_message_def Let_def)


text \<open>
  C2. Every record handed to the dispatcher (\<open>process_client_message\<close> in each of its
  overloads, \<open>process_message\<close> of UltraHFTServer) adds exactly one to the count of
  processed messages, whether or not a service is registered for its tag. When none is
  registered the record is dropped: the connection and the server are as before but for
  the statistics (nothing is closed, delivered or sent), and the record is counted.
\<close>

theorem dispatcher_counts_every_record:
  "total_messages_processed (stats (fst (snd (process_client_message ema msg conn (s, w)))))
     = total_messages_processed (stats s) + 1
   \<and> total_messages_processed (stats (fst (snd (process_client_message_order ema msg conn (s, w)))))
     = total_messages_processed (stats s) + 1
   \<and> total_messages_processed
       (stats (fst (snd (process_client_message_market_data ema msg conn (s, w)))))
     = total_messages_processed (stats s) + 1
   \<and> (services s (message_type msg) = None \<longrightarrow>
        process_client_message ema msg conn (s, w) =
          (conn,
           s\<lparr>stats := (stats s)
                \<lparr>total_messages_processed := total_messages_processed (stats s) + 1,
                 avg_latency_us := ema (avg_latency_us (stats s))
                                     (sint (clock w (Suc (reads w)) - clock w (reads w)))\<rparr>\<rparr>,
           w\<lparr>reads := Suc (Suc (reads w))\<rparr>))
   \<and> total_messages (u_stats (fst (process_message (Some m) (Some i) (us, uw))))
     = total_messages (u_stats us) + 1
   \<and> (u_message_type (recv_buffer us ! m) \<noteq> 1 \<and> u_message_type (recv_buffer us ! m) \<noteq> 2 \<longrightarrow>
        process_message (Some m) (Some i) (us, uw) =
          (us\<lparr>u_stats := (u_stats us)\<lparr>total_messages := total_messages (u_stats us) + 1\<rparr>\<rparr>, uw))"
  by (simp add: process_client_message_count process_client_message_absent
      process_client_message_order_def process_client_message_market_data_def
      process_message_count process_message_unknown)

theorem dispatcher_counts_every_record_witness:
  "services hft_demo (message_type heartbeat_demo) = None
   \<and> total_messages_processed
       (stats (fst (snd (process_client_message ema_demo heartbeat_demo (Connection\<lparr>fd := 5\<rparr>)
                          (hft_demo, os_demo))))) = 1
   \<and> fst (process_client_message ema_demo heartbeat_demo (Connection\<lparr>fd := 5\<rparr>)
            (hft_demo, os_demo)) = Connection\<lparr>fd := 5\<rparr>
   \<and> connections (fst (snd (process_client_message ema_demo heartbeat_demo
                               (Connection\<lparr>fd := 5\<rparr>) (hft_demo, os_demo))))
       = connections hft_demo
   \<and> open_fds (snd (snd (process_client_message ema_demo heartbeat_demo
                            (Connection\<lparr>fd := 5\<rparr>) (hft_demo, os_demo)))) = {3, 4, 5}
   \<and> delivered (snd (snd (process_client_message ema_demo heartbeat_demo
                            (Connection\<lparr>fd := 5\<rparr>) (hft_demo, os_demo)))) = []
   \<and> u_message_type (recv_buffer ultra_demo ! 0) \<noteq> 1
   \<and> u_message_type (recv_buffer ultra_demo ! 0) \<noteq> 2
   \<and> total_messages (u_stats (fst (process_message (Some 0) (Some 0) (ultra_demo, os_demo)))) = 1
   \<and> snd (process_message (Some 0) (Some 0) (ultra_demo, os_demo)) = os_demo"
proof -
  have a: "services hft_demo (message_type heartbeat_demo) = None"
    by (simp add: hft_demo_def heartbeat_demo_def Message_def HEARTBEAT_def ORDER_NEW_def)
  have b: "u_message_type (recv_buffer ultra_demo ! 0) \<noteq> 1
           \<and> u_message_type (recv_buffer ultra_demo ! 0) \<noteq> 2"
    by (simp add: ultra_demo_def UltraMessage_def)
  have c: "total_messages_processed (stats hft_demo) = 0" "connections (hft_demo\<lparr>stats := st\<rparr>) = connections hft_demo" for st
    by (simp_all add: hft_demo_def)
  have d: "total_messages (u_stats ultra_demo) = 0"
    by (simp add: ultra_demo_def)
  have e: "open_fds os_demo = {3, 4, 5}" "delivered os_demo = []"
    by (simp_all add: os_demo_def)
  from dispatcher_counts_every_record
         [of ema_demo heartbeat_demo "Connection\<lparr>fd := 5\<rparr>" hft_demo os_demo 0 0 ultra_demo os_demo]
       a b c d e
  show ?thesis by simp
qed

subsection \<open>The service routine of a connection\<close>

lemma find_connection_Some:
  "find_connection d cs = Some i \<Longrightarrow> i < length cs \<and> u_fd (cs ! i) = d"
proof (induction cs arbitrary: i)
  case Nil
  then show ?case by simp
next
  case (Cons c cs)
  show ?case
  proof (cases "u_fd c = d")
    case True
    with Cons.prems show ?thesis by simp
  next
    case False
    with Cons.prems obtain j where j: "find_connection d cs = Some j" "i = Suc j"
      by auto
    with Cons.IH[OF j(1)] show ?thesis by simp
  qed
qed

lemma process_client_message_shape:
  "process_client_message ema msg conn (s, w) = (conn', s', w') \<Longrightarrow>
     connections s' = connections s \<and> services s' = services s
     \<and> running s' = running s \<and> server_socket s' = server_socket s \<and> epoll_fd s' = epoll_fd s
     \<and> worker_threads s' = worker_threads s
     \<and> peak_connections (stats s') = peak_connections (stats s)
     \<and> open_fds w' = open_fds w \<and> epoll_interest w' = epoll_interest w
     \<and> joined w' = joined w
     \<and> (case services s (message_type msg) of None \<Rightarrow> conn' = conn | Some h \<Rightarrow> conn' = h msg conn)"
  by (auto simp: process_client_message_def now_def Let_def split: option.splits)

lemma with_conn_process:
  assumes "keeps_fd s" "serves s client_fd"
    and "with_conn client_fd (process_client_message ema msg) (s, w) = (s', w')"
  shows "keeps_fd s' \<and> serves s' client_fd
         \<and> open_fds w' = open_fds w \<and> epoll_interest w' = epoll_interest w"
proof -
  from assms(2) obtain c where c: "map_of (connections s) client_fd = Some c" "fd c = client_fd"
    by (auto simp: serves_def split: option.splits)
  obtain c1 s1 w1 where p: "process_client_message ema msg c (s, w) = (c1, s1, w1)"
    by (cases "process_client_message ema msg c (s, w)")
  note sh = process_client_message_shape[OF p]
  from assms(3) c p have s': "s' = s1\<lparr>connections := AList.update client_fd c1 (connections s1)\<rparr>"
    and w': "w' = w1" by (simp_all add: with_conn_def)
  have "fd c1 = client_fd"
    using sh c(2) assms(1) by (auto simp: keeps_fd_def split: option.splits)
  then have "serves s' client_fd"
    by (simp add: serves_def s' update_conv')
  moreover have "keeps_fd s'" using assms(1) sh by (simp add: keeps_fd_def s')
  ultimately show ?thesis using sh w' by simp
qed

lemma hft_dispatch_keeps:
  assumes "keeps_fd s" "serves s client_fd"
    and "hft_dispatch L ema client_fd n msg (s, w) = (s', w')"
  shows "keeps_fd s' \<and> serves s' client_fd
         \<and> open_fds w' = open_fds w \<and> epoll_interest w' = epoll_interest w"
  using assms with_conn_process[OF assms(1,2)]
  by (auto simp: hft_dispatch_def process_client_message_order_def
      process_client_message_market_data_def split: if_splits)


lemma hft_recv_loop_data:
  assumes "keeps_fd s" "serves s client_fd" "list_all is_data ds"
  shows "\<exists>s1 w1. keeps_fd s1 \<and> serves s1 client_fd
           \<and> open_fds w1 = open_fds w \<and> epoll_interest w1 = epoll_interest w
           \<and> (\<forall>rest. hft_recv_loop L ema client_fd (ds @ rest) (s, w)
                        = hft_recv_loop L ema client_fd rest (s1, w1))"
  using assms
proof (induction ds arbitrary: s w)
  case Nil
  then show ?case by auto
next
  case (Cons r ds)
  from Cons.prems(3) obtain n m where r: "r = Recv_data n m" and ds: "list_all is_data ds"
    by (cases r) auto
  obtain s' w' where d: "hft_dispatch L ema client_fd n m (s, w) = (s', w')"
    by (cases "hft_dispatch L ema client_fd n m (s, w)")
  from hft_dispatch_keeps[OF Cons.prems(1,2) d]
  have k: "keeps_fd s'" "serves s' client_fd" "open_fds w' = open_fds w"
    "epoll_interest w' = epoll_interest w" by simp_all
  from Cons.IH[OF k(1,2) ds, of w'] obtain s1 w1 where
    "keeps_fd s1" "serves s1 client_fd" "open_fds w1 = open_fds w'"
    "epoll_interest w1 = epoll_interest w'"
    "\<forall>rest. hft_recv_loop L ema client_fd (ds @ rest) (s', w')
                        = hft_recv_loop L ema client_fd rest (s1, w1)"
    by blast
  with k r d show ?case by (intro exI[of _ s1] exI[of _ w1]) simp
qed

lemma hft_eof_closes:
  assumes "keeps_fd s" "serves s client_fd" "list_all is_data ds"
  shows "snd (hft_handle_client_events L ema client_fd (ds @ Recv_eof # rest) (s, w)) = rest
     \<and> client_fd \<notin> open_fds (snd (fst (hft_handle_client_events L ema client_fd
                                       (ds @ Recv_eof # rest) (s, w))))
     \<and> epoll_interest (snd (fst (hft_handle_client_events L ema client_fd
                                       (ds @ Recv_eof # rest) (s, w)))) client_fd = None
     \<and> map_of (connections (fst (fst (hft_handle_client_events L ema client_fd
                                       (ds @ Recv_eof # rest) (s, w))))) client_fd = None"
proof -
  from assms(2) obtain c where c: "map_of (connections s) client_fd = Some c"
    by (auto simp: serves_def split: option.splits)
  from hft_recv_loop_data[OF assms, of w L ema] obtain s1 w1 where
    k: "serves s1 client_fd"
    and l: "hft_recv_loop L ema client_fd (ds @ Recv_eof # rest) (s, w)
            = hft_recv_loop L ema client_fd (Recv_eof # rest) (s1, w1)"
    by blast
  from k obtain c1 where c1: "map_of (connections s1) client_fd = Some c1" "fd c1 = client_fd"
    by (auto simp: serves_def split: option.splits)
  have "hft_handle_client_events L ema client_fd (ds @ Recv_eof # rest) (s, w)
        = ((s1\<lparr>connections := AList.delete client_fd (connections s1)\<rparr>,
            os_close client_fd (epoll_ctl_del client_fd w1)), rest)"
    using c l c1 by (simp add: hft_handle_client_events_def hft_close_connection_def)
  then show ?thesis
    by (simp add: os_close_def epoll_ctl_del_def delete_conv')
qed

lemma hft_eagain_stops:
  assumes "keeps_fd s" "serves s client_fd" "list_all is_data ds"
    and "e = EAGAIN \<or> e = EWOULDBLOCK"
  shows "snd (hft_handle_client_events L ema client_fd (ds @ Recv_error e # rest) (s, w)) = rest
     \<and> serves (fst (fst (hft_handle_client_events L ema client_fd
                                       (ds @ Recv_error e # rest) (s, w)))) client_fd
     \<and> open_fds (snd (fst (hft_handle_client_events L ema client_fd
                                       (ds @ Recv_error e # rest) (s, w)))) = open_fds w
     \<and> epoll_interest (snd (fst (hft_handle_client_events L ema client_fd
                                       (ds @ Recv_error e # rest) (s, w)))) = epoll_interest w"
proof -
  from assms(2) obtain c where c: "map_of (connections s) client_fd = Some c"
    by (auto simp: serves_def split: option.splits)
  from hft_recv_loop_data[OF assms(1-3), of w L ema] obtain s1 w1 where
    k: "serves s1 client_fd" "open_fds w1 = open_fds w" "epoll_interest w1 = epoll_interest w"
    and l: "hft_recv_loop L ema client_fd (ds @ Recv_error e # rest) (s, w)
            = hft_recv_loop L ema client_fd (Recv_error e # rest) (s1, w1)"
    by blast
  have "hft_handle_client_events L ema client_fd (ds @ Recv_error e # rest) (s, w)
        = ((s1, w1), rest)"
    using c l by (simp add: hft_handle_client_events_def)
  with k show ?thesis by simp
qed

lemma ultra_close_effect:
  assumes "i < length (u_connections s)"
  shows "u_fd (u_connections s ! i) \<notin> open_fds (snd (ultra_close_connection (Some i) (s, w)))
     \<and> epoll_interest (snd (ultra_close_connection (Some i) (s, w))) (u_fd (u_connections s ! i)) = None
     \<and> length (u_connections (fst (ultra_close_connection (Some i) (s, w)))) = length (u_connections s)
     \<and> \<not> is_active (u_connections (fst (ultra_close_connection (Some i) (s, w))) ! i)
     \<and> u_fd (u_connections (fst (ultra_close_connection (Some i) (s, w))) ! i)
         = u_fd (u_connections s ! i)"
  using assms
  by (simp add: ultra_close_connection_def Let_def os_close_def epoll_ctl_del_def)

lemma ultra_recv_closes:
  assumes f: "find_connection client_fd (u_connections s) = Some i"
    and r: "r = Recv_eof \<or> (\<exists>e. r = Recv_error e \<and> e \<noteq> EAGAIN \<and> e \<noteq> EWOULDBLOCK)"
  shows "ultra_handle_client_events L client_fd (r # rest) (s, w)
         = (ultra_close_connection (Some i) (s\<lparr>recv_buffer_index := recv_buffer_index s + 1\<rparr>, w),
            rest)"
  using f r by (auto simp: ultra_handle_client_events_def get_next_recv_buffer_def Let_def)

lemma ultra_eagain_stops:
  assumes f: "find_connection client_fd (u_connections s) = Some i"
    and e: "e = EAGAIN \<or> e = EWOULDBLOCK"
  shows "ultra_handle_client_events L client_fd (Recv_error e # rest) (s, w)
         = ((s\<lparr>recv_buffer_index := recv_buffer_index s + 1\<rparr>, w), rest)"
  using f e by (auto simp: ultra_handle_client_events_def get_next_recv_buffer_def Let_def)


text \<open>
  HFTServer leaves its loop on every failure of \<^verbatim>\<open>recv\<close> with the state as it is: on
  \<^verbatim>\<open>EAGAIN\<close> by \<^verbatim>\<open>break\<close>, on any other \<^verbatim>\<open>errno\<close> by \<^verbatim>\<open>return\<close>, without a call of
  \<open>close_connection\<close>.
\<close>

lemma hft_recv_error_returns:
  assumes "map_of (connections s) client_fd = Some c"
  shows "hft_handle_client_events L ema client_fd (Recv_error e # rest) (s, w) = ((s, w), rest)"
  using assms by (simp add: hft_handle_client_events_def)

text \<open>
  C3 (as amended). In the service routine of a connection, after any records that were
  received before: when \<^verbatim>\<open>recv\<close> returns 0 the connection is closed, that is, its
  descriptor is closed and taken off the interest list of the reactor, and HFTServer
  removes the record from its connection table, while UltraHFTServer keeps the record
  in \<^verbatim>\<open>connections_\<close> and clears its \<^verbatim>\<open>is_active\<close> flag; when \<^verbatim>\<open>recv\<close> fails with
  \<^verbatim>\<open>EAGAIN\<close> or \<^verbatim>\<open>EWOULDBLOCK\<close> the routine stops reading (the results still to come are
  left) and the connection stays open, registered and in the table; when \<^verbatim>\<open>recv\<close> fails
  with another \<^verbatim>\<open>errno\<close>, UltraHFTServer closes the connection as it does when \<^verbatim>\<open>recv\<close>
  returns 0.
\<close>

theorem recv_outcomes:
  fixes s :: "'d hft_server" and us :: ultra_server
    and L :: layout and ema :: "'d \<Rightarrow> int \<Rightarrow> 'd" and w uw :: os
    and rest :: "message recv_result list" and urest :: "ultra_message recv_result list"
  assumes "keeps_fd s" and "serves s client_fd" and "list_all is_data ds"
    and "find_connection client_fd (u_connections us) = Some i"
  defines "eof \<equiv> hft_handle_client_events L ema client_fd (ds @ Recv_eof # rest) (s, w)"
    and "again \<equiv> \<lambda>e. hft_handle_client_events L ema client_fd (ds @ Recv_error e # rest) (s, w)"
    and "ultra \<equiv> \<lambda>r. ultra_handle_client_events L client_fd (r # urest) (us, uw)"
  shows "snd eof = rest
     \<and> client_fd \<notin> open_fds (snd (fst eof))
     \<and> epoll_interest (snd (fst eof)) client_fd = None
     \<and> map_of (connections (fst (fst eof))) client_fd = None
     \<and> (e = EAGAIN \<or> e = EWOULDBLOCK \<longrightarrow>
          snd (again e) = rest
        \<and> serves (fst (fst (again e))) client_fd
        \<and> open_fds (snd (fst (again e))) = open_fds w
        \<and> epoll_interest (snd (fst (again e))) = epoll_interest w
        \<and> ultra (Recv_error e)
            = ((us\<lparr>recv_buffer_index := recv_buffer_index us + 1\<rparr>, uw), urest))
     \<and> (r = Recv_eof \<or> (\<exists>e'. r = Recv_error e' \<and> e' \<noteq> EAGAIN \<and> e' \<noteq> EWOULDBLOCK) \<longrightarrow>
          snd (ultra r) = urest
        \<and> client_fd \<notin> open_fds (snd (fst (ultra r)))
        \<and> epoll_interest (snd (fst (ultra r))) client_fd = None
        \<and> length (u_connections (fst (fst (ultra r)))) = length (u_connections us)
        \<and> \<not> is_active (u_connections (fst (fst (ultra r))) ! i)
        \<and> u_fd (u_connections (fst (fst (ultra r))) ! i) = client_fd)"
proof -
  note h = hft_eof_closes[OF assms(1-3), of L ema rest w]
  have a: "e = EAGAIN \<or> e = EWOULDBLOCK \<longrightarrow>
          snd (again e) = rest
        \<and> serves (fst (fst (again e))) client_fd
        \<and> open_fds (snd (fst (again e))) = open_fds w
        \<and> epoll_interest (snd (fst (again e))) = epoll_interest w
        \<and> ultra (Recv_error e)
            = ((us\<lparr>recv_buffer_index := recv_buffer_index us + 1\<rparr>, uw), urest)"
    unfolding again_def ultra_def
    using hft_eagain_stops[OF assms(1-3), of e L ema rest w] ultra_eagain_stops[OF assms(4), of e L urest uw]
    by blast
  have b: "snd (ultra r) = urest
        \<and> client_fd \<notin> open_fds (snd (fst (ultra r)))
        \<and> epoll_interest (snd (fst (ultra r))) client_fd = None
        \<and> length (u_connections (fst (fst (ultra r)))) = length (u_connections us)
        \<and> \<not> is_active (u_connections (fst (fst (ultra r))) ! i)
        \<and> u_fd (u_connections (fst (fst (ultra r))) ! i) = client_fd"
    if r: "r = Recv_eof \<or> (\<exists>e'. r = Recv_error e' \<and> e' \<noteq> EAGAIN \<and> e' \<noteq> EWOULDBLOCK)"
  proof -
    let ?s = "us\<lparr>recv_buffer_index := recv_buffer_index us + 1\<rparr>"
    from find_connection_Some[OF assms(4)]
    have i: "i < length (u_connections ?s)" "u_fd (u_connections ?s ! i) = client_fd" by simp_all
    from ultra_close_effect[OF i(1), of uw] i(2) ultra_recv_closes[OF assms(4) r, of L urest uw]
    show ?thesis unfolding ultra_def by simp
  qed
  from h a b show ?thesis unfolding eof_def by blast
qed

lemma keeps_fd_demo: "keeps_fd hft_demo"
  by (simp add: keeps_fd_def hft_demo_def authenticate_def)

lemma serves_demo: "serves hft_demo 5"
  by (simp add: serves_def hft_demo_def)

lemma find_connection_demo: "find_connection 5 (u_connections ultra_demo) = Some 0"
  by (simp add: ultra_demo_def)

theorem recv_outcomes_witness:
  "keeps_fd hft_demo \<and> serves hft_demo 5 \<and> list_all is_data [Recv_data 1064 heartbeat_demo]
   \<and> find_connection 5 (u_connections ultra_demo) = Some 0
   \<and> 5 \<notin> open_fds (snd (fst (hft_handle_client_events layout_demo ema_demo 5
                                 ([Recv_data 1064 heartbeat_demo] @ Recv_eof # [])
                                 (hft_demo, os_demo))))
   \<and> map_of (connections (fst (fst (hft_handle_client_events layout_demo ema_demo 5
                                 ([Recv_data 1064 heartbeat_demo] @ Recv_eof # [])
                                 (hft_demo, os_demo))))) 5 = None
   \<and> serves (fst (fst (hft_handle_client_events layout_demo ema_demo 5
                                 ([Recv_data 1064 heartbeat_demo] @ Recv_error EAGAIN # [])
                                 (hft_demo, os_demo)))) 5
   \<and> ECONNRESET \<noteq> EAGAIN \<and> ECONNRESET \<noteq> EWOULDBLOCK
   \<and> 5 \<notin> open_fds (snd (fst (ultra_handle_client_events layout_demo 5
                                 (Recv_error ECONNRESET # []) (ultra_demo, os_demo))))
   \<and> \<not> is_active (u_connections (fst (fst (ultra_handle_client_events layout_demo 5
                                 (Recv_error ECONNRESET # []) (ultra_demo, os_demo)))) ! 0)"
proof -
  have d: "list_all is_data [Recv_data 1064 heartbeat_demo :: message recv_result]" by simp
  have e: "ECONNRESET \<noteq> EAGAIN \<and> ECONNRESET \<noteq> EWOULDBLOCK"
    by (simp add: ECONNRESET_def EAGAIN_def EWOULDBLOCK_def)
  from recv_outcomes[OF keeps_fd_demo serves_demo d find_connection_demo,
         where L = layout_demo and ema = ema_demo and rest = "[]" and w = os_demo
           and e = EAGAIN and urest = "[]" and uw = os_demo and r = "Recv_error ECONNRESET"]
       keeps_fd_demo serves_demo find_connection_demo e
  show ?thesis by auto
qed

text \<open>
  C3 as stated fails in UltraHFTServer where \<^verbatim>\<open>recv\<close> returns 0: \<open>close_connection\<close>
  clears \<^verbatim>\<open>is_active\<close> and leaves the record in \<^verbatim>\<open>connections_\<close>, where a search for
  the descriptor still finds it.
\<close>

theorem ultra_eof_keeps_record_counterexample:
  "length (u_connections (fst (fst (ultra_handle_client_events layout_demo 5 [Recv_eof]
                                      (ultra_demo, os_demo))))) = 1
   \<and> find_connection 5 (u_connections (fst (fst (ultra_handle_client_events layout_demo 5
                                      [Recv_eof] (ultra_demo, os_demo))))) = Some 0"
  by (simp add: ultra_handle_client_events_def ultra_demo_def get_next_recv_buffer_def
      ultra_close_connection_def Let_def UltraConnection_def)

subsection \<open>stop\<close>

lemma join_threads_effect:
  "joined (join_threads ts w) = joined w \<union> tid ` {t \<in> set ts. joinable t}
   \<and> open_fds (join_threads ts w) = open_fds w
   \<and> epoll_interest (join_threads ts w) = epoll_interest w"
  unfolding join_threads_def
  by (induction ts arbitrary: w) (auto simp: join_def)

lemma close_all_effect:
  "open_fds (fold (\<lambda>(k, conn) w. os_close (fd conn) w) cs w) = open_fds w - (fd \<circ> snd) ` set cs
   \<and> joined (fold (\<lambda>(k, conn) w. os_close (fd conn) w) cs w) = joined w"
  by (induction cs arbitrary: w) (auto simp: os_close_def)

lemma hft_stop_running:
  assumes "running s"
  shows "fst (hft_stop (s, w)) =
           s\<lparr>running := False, server_socket := - 1, worker_threads := [], epoll_fd := - 1,
             connections := []\<rparr>
     \<and> open_fds (snd (hft_stop (s, w))) =
         open_fds w - ((if server_socket s \<noteq> - 1 then {server_socket s} else {})
                       \<union> (if epoll_fd s \<noteq> - 1 then {epoll_fd s} else {})
                       \<union> (fd \<circ> snd) ` set (connections s))
     \<and> joined (snd (hft_stop (s, w))) =
         joined w \<union> tid ` {t \<in> set (worker_threads s). joinable t}"
  using assms
  by (auto simp: hft_stop_def Let_def close_all_effect join_threads_effect os_close_def
      close_epoll_def)

lemma hft_stop_stopped: "\<not> running s \<Longrightarrow> hft_stop (s, w) = (s, w)"
  by (simp add: hft_stop_def)

lemma hft_stop_not_running: "\<not> running (fst (hft_stop (s, w)))"
  by (cases "running s") (simp_all add: hft_stop_running hft_stop_stopped)

lemma hft_stop_twice: "hft_stop (hft_stop (s, w)) = hft_stop (s, w)"
  using hft_stop_not_running[of s w] hft_stop_stopped[of "fst (hft_stop (s, w))" "snd (hft_stop (s, w))"]
  by simp

lemma ultra_stop_running:
  assumes "u_running s"
  shows "\<not> u_running (fst (ultra_stop (s, w)))
     \<and> u_worker_threads (fst (ultra_stop (s, w))) = []
     \<and> sint (u_epoll_fd (fst (ultra_stop (s, w)))) < 0
     \<and> sint (u_server_socket (fst (ultra_stop (s, w)))) < 0
     \<and> open_fds (snd (ultra_stop (s, w))) =
         open_fds w - ((if 0 \<le> sint (u_epoll_fd s) then {u_epoll_fd s} else {})
                       \<union> (if 0 \<le> sint (u_server_socket s) then {u_server_socket s} else {}))
     \<and> joined (snd (ultra_stop (s, w))) =
         joined w \<union> tid ` {t \<in> set (u_worker_threads s). joinable t}"
  using assms
  by (auto simp: ultra_stop_def Let_def join_threads_effect os_close_def close_epoll_def)

lemma ultra_stop_stopped: "\<not> u_running s \<Longrightarrow> ultra_stop (s, w) = (s, w)"
  by (simp add: ultra_stop_def)

lemma ultra_stop_not_running: "\<not> u_running (fst (ultra_stop (s, w)))"
  by (cases "u_running s") (simp_all add: ultra_stop_running ultra_stop_stopped)

lemma ultra_stop_twice: "ultra_stop (ultra_stop (s, w)) = ultra_stop (s, w)"
  using ultra_stop_not_running[of s w]
    ultra_stop_stopped[of "fst (ultra_stop (s, w))" "snd (ultra_stop (s, w))"]
  by simp


text \<open>
  C4 (as amended). After \<open>stop()\<close> returns on a server that was running: the running flag
  is false, the listener socket and the reactor are closed (their descriptors are
  closed and the members hold \<open>-1\<close>), every worker thread that could be joined has been
  joined and the list of workers is empty and, in HFTServer, the descriptor of every
  connection of the connection table is closed and the table is empty. \<open>stop()\<close> on a
  server that is not running returns at once and leaves all state unchanged; so a
  second call of \<open>stop()\<close> changes nothing.
\<close>

theorem stop_of_a_running_server:
  "(running s \<longrightarrow>
      fst (hft_stop (s, w)) =
        s\<lparr>running := False, server_socket := - 1, worker_threads := [], epoll_fd := - 1,
          connections := []\<rparr>
    \<and> open_fds (snd (hft_stop (s, w))) =
        open_fds w - ((if server_socket s \<noteq> - 1 then {server_socket s} else {})
                      \<union> (if epoll_fd s \<noteq> - 1 then {epoll_fd s} else {})
                      \<union> (fd \<circ> snd) ` set (connections s))
    \<and> joined (snd (hft_stop (s, w))) =
        joined w \<union> tid ` {t \<in> set (worker_threads s). joinable t})
   \<and> (\<not> running s \<longrightarrow> hft_stop (s, w) = (s, w))
   \<and> hft_stop (hft_stop (s, w)) = hft_stop (s, w)
   \<and> (u_running us \<longrightarrow>
      \<not> u_running (fst (ultra_stop (us, uw)))
    \<and> u_worker_threads (fst (ultra_stop (us, uw))) = []
    \<and> sint (u_epoll_fd (fst (ultra_stop (us, uw)))) < 0
    \<and> sint (u_server_socket (fst (ultra_stop (us, uw)))) < 0
    \<and> open_fds (snd (ultra_stop (us, uw))) =
        open_fds uw - ((if 0 \<le> sint (u_epoll_fd us) then {u_epoll_fd us} else {})
                      \<union> (if 0 \<le> sint (u_server_socket us) then {u_server_socket us} else {}))
    \<and> joined (snd (ultra_stop (us, uw))) =
        joined uw \<union> tid ` {t \<in> set (u_worker_threads us). joinable t})
   \<and> (\<not> u_running us \<longrightarrow> ultra_stop (us, uw) = (us, uw))
   \<and> ultra_stop (ultra_stop (us, uw)) = ultra_stop (us, uw)"
  using hft_stop_running[of s w] hft_stop_stopped[of s w] hft_stop_twice[of s w]
    ultra_stop_running[of us uw] ultra_stop_stopped[of us uw] ultra_stop_twice[of us uw]
  by blast

theorem stop_of_a_running_server_witness:
  "running hft_demo \<and> u_running ultra_demo
   \<and> \<not> running (fst (hft_stop (hft_demo, os_demo)))
   \<and> server_socket (fst (hft_stop (hft_demo, os_demo))) = - 1
   \<and> epoll_fd (fst (hft_stop (hft_demo, os_demo))) = - 1
   \<and> worker_threads (fst (hft_stop (hft_demo, os_demo))) = []
   \<and> connections (fst (hft_stop (hft_demo, os_demo))) = []
   \<and> open_fds (snd (hft_stop (hft_demo, os_demo))) = {}
   \<and> joined (snd (hft_stop (hft_demo, os_demo))) = {1}
   \<and> open_fds (snd (ultra_stop (ultra_demo, os_demo))) = {5}
   \<and> joined (snd (ultra_stop (ultra_demo, os_demo))) = {1}
   \<and> \<not> running hft_initialized
   \<and> hft_stop (hft_initialized, os_initialized) = (hft_initialized, os_initialized)
   \<and> \<not> u_running (ultra_demo\<lparr>u_running := False\<rparr>)
   \<and> ultra_stop (ultra_demo\<lparr>u_running := False\<rparr>, os_demo)
       = (ultra_demo\<lparr>u_running := False\<rparr>, os_demo)"
proof -
  have a: "running hft_demo" "server_socket hft_demo = 3" "epoll_fd hft_demo = 4"
    "connections hft_demo = [(5, Connection\<lparr>fd := 5\<rparr>)]"
    "worker_threads hft_demo = [\<lparr>tid = 1, joinable = True\<rparr>]"
    by (simp_all add: hft_demo_def)
  have b: "u_running ultra_demo" "u_server_socket ultra_demo = 3" "u_epoll_fd ultra_demo = 4"
    "u_worker_threads ultra_demo = [\<lparr>tid = 1, joinable = True\<rparr>]"
    by (simp_all add: ultra_demo_def)
  have c: "open_fds os_demo = {3, 4, 5}" "joined os_demo = {}"
    by (simp_all add: os_demo_def)
  have d: "\<not> running hft_initialized"
    by (simp add: hft_initialized_def)
  have e: "{t. t = \<lparr>tid = 1, joinable = True\<rparr> \<and> joinable t} = {\<lparr>tid = 1, joinable = True\<rparr>}"
    by auto
  from stop_of_a_running_server[of hft_demo os_demo ultra_demo os_demo]
       stop_of_a_running_server[of hft_initialized os_initialized
                                   "ultra_demo\<lparr>u_running := False\<rparr>" os_demo]
       a b c d e
  show ?thesis by (simp add: insert_Diff_if)
qed

text \<open>
  C4 as stated fails for a server that is initialised and not running: \<open>stop()\<close>
  returns at its first test, and the listener (descriptor 3) and the reactor
  (descriptor 4) stay open.
\<close>

theorem stop_before_start_counterexample:
  "\<not> running hft_initialized
   \<and> server_socket hft_initialized = 3 \<and> epoll_fd hft_initialized = 4
   \<and> 3 \<in> open_fds (snd (hft_stop (hft_initialized, os_initialized)))
   \<and> 4 \<in> open_fds (snd (hft_stop (hft_initialized, os_initialized)))
   \<and> server_socket (fst (hft_stop (hft_initialized, os_initialized))) = 3
   \<and> epoll_fd (fst (hft_stop (hft_initialized, os_initialized))) = 4"
  by (simp add: hft_stop_def hft_initialized_def os_initialized_def)

subsection \<open>Validation of received records\<close>

lemma process_client_message_delivers:
  "delivered (snd (snd (process_client_message ema msg conn (s, w)))) =
     delivered w @ (case services s (message_type msg) of
                      None \<Rightarrow> [] | Some h \<Rightarrow> [(message_type msg, msg)])"
  by (simp add: process_client_message_def now_def Let_def split: option.splits)

lemma with_conn_delivers:
  assumes "map_of (connections s) client_fd = Some c"
  shows "delivered (snd (with_conn client_fd (process_client_message ema msg) (s, w))) =
     delivered w @ (case services s (message_type msg) of
                      None \<Rightarrow> [] | Some h \<Rightarrow> [(message_type msg, msg)])"
  using assms process_client_message_delivers[of ema msg c s w]
  by (simp add: with_conn_def case_prod_beta)

lemma market_data_is_no_order:
  "MARKET_DATA \<noteq> ORDER_NEW" "MARKET_DATA \<noteq> ORDER_CANCEL" "MARKET_DATA \<noteq> ORDER_REPLACE"
  by (simp_all add: MARKET_DATA_def ORDER_NEW_def ORDER_CANCEL_def ORDER_REPLACE_def)

lemma hft_dispatch_delivers:
  assumes "map_of (connections s) client_fd = Some c"
  shows "delivered (snd (hft_dispatch L ema client_fd n msg (s, w))) =
     delivered w @ (if complete_record L n msg \<and> services s (message_type msg) \<noteq> None
                    then [(message_type msg, msg)] else [])"
  using with_conn_delivers[OF assms, of ema msg w]
  by (auto simp: hft_dispatch_def complete_record_def process_client_message_order_def
      process_client_message_market_data_def market_data_is_no_order split: option.splits)

text \<open>
  C5 (as amended). The server does not validate the records it receives. A record of
  the connection on \<open>client_fd\<close> is delivered to a service exactly when it passes the
  size tests of \<open>handle_client_events\<close> and a service is registered under its tag,
  whatever its \<open>payload_size\<close>; so a record whose tag has no registered service, as
  every tag outside the enumerated set has when the services are registered under
  enumerated tags only, is delivered to no service. \<open>Message::is_valid\<close>, which the
  server does not call, is false for every record whose \<open>payload_size\<close> exceeds 1024.
\<close>

theorem records_are_not_validated:
  assumes "map_of (connections s) client_fd = Some c"
  shows "delivered (snd (hft_dispatch L ema client_fd n msg (s, w))) =
           delivered w @ (if complete_record L n msg \<and> services s (message_type msg) \<noteq> None
                          then [(message_type msg, msg)] else [])
     \<and> (dom (services s) \<subseteq> set message_types \<and> message_type msg \<notin> set message_types \<longrightarrow>
          delivered (snd (hft_dispatch L ema client_fd n msg (s, w))) = delivered w)
     \<and> (1024 < unat (payload_size msg) \<longrightarrow> \<not> is_valid msg)"
proof -
  note d = hft_dispatch_delivers[OF assms, of L ema n msg w]
  have "services s (message_type msg) = None"
    if "dom (services s) \<subseteq> set message_types" "message_type msg \<notin> set message_types"
    using that by (auto simp: dom_def)
  with d show ?thesis by (simp add: is_valid_def payload_capacity_def)
qed

theorem records_are_not_validated_witness:
  "map_of (connections hft_demo) 5 = Some (Connection\<lparr>fd := 5\<rparr>)
   \<and> dom (services hft_demo) \<subseteq> set message_types
   \<and> message_type (Message\<lparr>message_type := 0x0A\<rparr>) \<notin> set message_types
   \<and> delivered (snd (hft_dispatch layout_demo ema_demo 5 1064 (Message\<lparr>message_type := 0x0A\<rparr>)
                        (hft_demo, os_demo))) = []
   \<and> 1024 < unat (payload_size oversized_demo) \<and> \<not> is_valid oversized_demo
   \<and> complete_record layout_demo 1128 oversized_demo
   \<and> delivered (snd (hft_dispatch layout_demo ema_demo 5 1128 oversized_demo
                        (hft_demo, os_demo))) = [(ORDER_NEW, oversized_demo)]"
proof -
  have a: "map_of (connections hft_demo) 5 = Some (Connection\<lparr>fd := 5\<rparr>)"
    by (simp add: hft_demo_def)
  have b: "dom (services hft_demo) \<subseteq> set message_types"
    by (simp add: hft_demo_def message_types_def)
  have c: "message_type (Message\<lparr>message_type := 0x0A\<rparr>) \<notin> set message_types"
    by (simp add: message_types_def ORDER_NEW_def ORDER_CANCEL_def ORDER_REPLACE_def
        ORDER_FILL_def ORDER_REJECT_def MARKET_DATA_def HEARTBEAT_def LOGIN_def LOGOUT_def
        ERROR_def)
  have d: "1024 < unat (payload_size oversized_demo)"
    "message_type oversized_demo = ORDER_NEW"
    by (simp_all add: oversized_demo_def)
  have e: "complete_record layout_demo 1128 oversized_demo"
    by (simp add: complete_record_def layout_demo_def d market_data_is_no_order [symmetric])
  have f: "services hft_demo ORDER_NEW \<noteq> None" "delivered os_demo = []"
    "services hft_demo 10 = None"
    by (simp_all add: hft_demo_def os_demo_def ORDER_NEW_def)
  from records_are_not_validated[OF a, of layout_demo ema_demo 1064
         "Message\<lparr>message_type := 0x0A\<rparr>" os_demo]
       records_are_not_validated[OF a, of layout_demo ema_demo 1128 oversized_demo os_demo]
       a b c d e f
  show ?thesis by simp
qed

text \<open>
  C5 as stated fails: a new order of 1128 bytes that declares a payload of 2000 bytes
  is delivered to the service registered for new orders.
\<close>

theorem oversized_record_is_delivered_counterexample:
  "1024 < unat (payload_size oversized_demo)
   \<and> delivered (snd (fst (hft_handle_client_events layout_demo ema_demo 5
                            [Recv_data 1128 oversized_demo] (hft_demo, os_demo))))
       = [(ORDER_NEW, oversized_demo)]"
  by (simp add: hft_handle_client_events_def hft_dispatch_def with_conn_def
      process_client_message_order_def process_client_message_def now_def Let_def
      hft_demo_def os_demo_def layout_demo_def oversized_demo_def)

subsection \<open>The accept routines\<close>

lemma ultra_accept_admit:
  assumes "admissible a"
  shows "ultra_accept_connections (Accept_ok a # rest) (s, w) =
     Inl (Null_dereference,
          (s\<lparr>connection_count := connection_count s + 1,
             u_connections := u_connections s @
                [UltraConnection\<lparr>u_fd := a_fd a, u_addr := a_addr a,
                                  u_last_heartbeat := clock w (reads w),
                                  u_client_id := connection_count s,
                                  u_is_authenticated := True\<rparr>],
             u_stats := count_connection (u_stats s)\<rparr>,
           epoll_ctl_add (a_fd a) (Some (length (u_connections s)))
             (w\<lparr>open_fds := insert (a_fd a) (open_fds w), reads := Suc (reads w)\<rparr>)))"
  using assms by (simp add: admissible_def now_def Let_def)

lemma ultra_accept_refuse:
  assumes "\<not> admissible a"
  shows "ultra_accept_connections (Accept_ok a # rest) (s, w) =
     ultra_accept_connections rest
       (if a_sockopts a \<and> a_nonblocking a
        then (s\<lparr>connection_count := connection_count s + 1\<rparr>,
              os_close (a_fd a)
                (w\<lparr>open_fds := insert (a_fd a) (open_fds w), reads := Suc (reads w)\<rparr>))
        else (s, os_close (a_fd a) (w\<lparr>open_fds := insert (a_fd a) (open_fds w)\<rparr>)))"
  using assms by (auto simp: admissible_def now_def Let_def)

lemma ultra_accept_refused_prefix:
  assumes "list_all (\<lambda>a. \<not> admissible a) rs"
  shows "\<exists>s' w'.
      (\<forall>more. ultra_accept_connections (map Accept_ok rs @ more) (s, w)
               = ultra_accept_connections more (s', w'))
      \<and> u_connections s' = u_connections s \<and> u_stats s' = u_stats s
      \<and> open_fds w' = open_fds w - a_fd ` set rs
      \<and> epoll_interest w' = (\<lambda>d. if d \<in> a_fd ` set rs then None else epoll_interest w d)"
  using assms
proof (induction rs arbitrary: s w)
  case Nil
  show ?case by (intro exI[of _ s] exI[of _ w]) simp
next
  case (Cons a rs)
  then have na: "\<not> admissible a" and rs: "list_all (\<lambda>a. \<not> admissible a) rs" by simp_all
  let ?s1 = "if a_sockopts a \<and> a_nonblocking a
             then s\<lparr>connection_count := connection_count s + 1\<rparr> else s"
  let ?w1 = "if a_sockopts a \<and> a_nonblocking a
             then os_close (a_fd a)
                (w\<lparr>open_fds := insert (a_fd a) (open_fds w), reads := Suc (reads w)\<rparr>)
             else os_close (a_fd a) (w\<lparr>open_fds := insert (a_fd a) (open_fds w)\<rparr>)"
  have step: "ultra_accept_connections (map Accept_ok (a # rs) @ more) (s, w)
        = ultra_accept_connections (map Accept_ok rs @ more) (?s1, ?w1)" for more
    using ultra_accept_refuse[OF na, of "map Accept_ok rs @ more" s w] by simp
  have s1: "u_connections ?s1 = u_connections s" "u_stats ?s1 = u_stats s" by simp_all
  have w1: "open_fds ?w1 = open_fds w - {a_fd a}"
    "epoll_interest ?w1 = (epoll_interest w)(a_fd a := None)"
    by (auto simp: os_close_def)
  from Cons.IH[OF rs, of ?s1 ?w1] obtain s' w' where
    m: "\<forall>more. ultra_accept_connections (map Accept_ok rs @ more) (?s1, ?w1)
               = ultra_accept_connections more (s', w')"
    and c: "u_connections s' = u_connections ?s1" "u_stats s' = u_stats ?s1"
    and o: "open_fds w' = open_fds ?w1 - a_fd ` set rs"
    and i: "epoll_interest w' = (\<lambda>d. if d \<in> a_fd ` set rs then None else epoll_interest ?w1 d)"
    by blast
  have "\<forall>more. ultra_accept_connections (map Accept_ok (a # rs) @ more) (s, w)
               = ultra_accept_connections more (s', w')"
    using step m by simp
  moreover have "u_connections s' = u_connections s" "u_stats s' = u_stats s"
    using c s1 by simp_all
  moreover have "open_fds w' = open_fds w - a_fd ` set (a # rs)"
    using o w1(1) by auto
  moreover have "epoll_interest w'
      = (\<lambda>d. if d \<in> a_fd ` set (a # rs) then None else epoll_interest w d)"
    unfolding i w1(2) by (rule ext) auto
  ultimately show ?case by blast
qed


lemma ultra_accept_admission:
  assumes "list_all (\<lambda>a. \<not> admissible a) rs" "admissible a"
  shows "\<exists>s' w'. ultra_accept_connections (map Accept_ok rs @ Accept_ok a # rest) (s, w)
                    = Inl (Null_dereference, (s', w'))
     \<and> map u_fd (u_connections s') = map u_fd (u_connections s) @ [a_fd a]
     \<and> u_stats s' = count_connection (u_stats s)
     \<and> a_fd a \<in> open_fds w'
     \<and> epoll_interest w' (a_fd a) = Some (Some (length (u_connections s)))"
proof -
  from ultra_accept_refused_prefix[OF assms(1), of s w] obtain s1 w1 where
    m: "\<And>more. ultra_accept_connections (map Accept_ok rs @ more) (s, w)
               = ultra_accept_connections more (s1, w1)"
    and c: "u_connections s1 = u_connections s" "u_stats s1 = u_stats s"
    by blast
  show ?thesis
    unfolding m[of "Accept_ok a # rest"] ultra_accept_admit[OF assms(2)]
    using c by (simp add: epoll_ctl_add_def UltraConnection_def)
qed

text \<open>
  The iteration that admits a connection ends at the output statement, which reads the
  identifier through the pointer that was moved into \<^verbatim>\<open>connections_\<close>: the run of the
  accept routine ends there, and the connections behind the admitted one are not
  accepted.
\<close>

lemma ultra_accept_ends_at_admission:
  assumes "list_all (\<lambda>a. \<not> admissible a) rs" "admissible a"
  shows "\<exists>st. ultra_accept_connections (map Accept_ok rs @ Accept_ok a # rest) (s, w)
                 = Inl (Null_dereference, st)"
  using ultra_accept_admission[OF assms, of rest s w] by blast







subsection \<open>The peak of the connections\<close>

lemma unat_succ_u64: "(a::u64) \<noteq> - 1 \<Longrightarrow> unat (a + 1) = Suc (unat a)"
  by (metis add.commute add_eq_0_iff unatSuc)

lemma unat_pred_u64: "(a::u64) \<noteq> 0 \<Longrightarrow> unat (a - 1) = unat a - 1"
  by (rule unat_minus_one)

lemma below_max_u64: "(a::u64) \<le> p \<Longrightarrow> p \<noteq> - 1 \<Longrightarrow> a \<noteq> - 1"
  by (metis word_order.extremum_unique)

lemma clients_add:
  "clients (epoll_ctl_add d (Some i) w) = insert d (clients w)"
  by (auto simp: clients_def epoll_ctl_add_def)

lemma clients_close: "clients (os_close d w) = clients w - {d}"
  by (auto simp: clients_def os_close_def)

lemma clients_del: "clients (epoll_ctl_del d w) = clients w - {d}"
  by (auto simp: clients_def epoll_ctl_del_def)

lemma clients_subset_dom: "clients w \<subseteq> dom (epoll_interest w)"
  by (auto simp: clients_def)

lemma finite_clients: "finite (dom (epoll_interest w)) \<Longrightarrow> finite (clients w)"
  using clients_subset_dom by (rule finite_subset)

lemma ultra_inv_cong:
  assumes "ultra_inv (s, w)"
    and "u_connections s' = u_connections s"
    and "active_connections (u_stats s') = active_connections (u_stats s)"
    and "u_peak_connections (u_stats s') = u_peak_connections (u_stats s)"
    and "epoll_interest w' = epoll_interest w"
  shows "ultra_inv (s', w')"
  using assms by (simp add: ultra_inv_def clients_def)

lemma ultra_inv_os_close:
  assumes "ultra_inv (s, w)"
  shows "ultra_inv (s, os_close d w)"
proof -
  from assms have fin: "finite (dom (epoll_interest w))" by (simp add: ultra_inv_def)
  have "card (clients (os_close d w)) \<le> card (clients w)"
    unfolding clients_close using finite_clients[OF fin] by (intro card_mono) auto
  moreover have "epoll_interest (os_close d w) = (epoll_interest w)(d := None)"
    by (simp add: os_close_def)
  ultimately show ?thesis
    using assms by (auto simp: ultra_inv_def)
qed

lemma ultra_inv_admit:
  assumes inv: "ultra_inv (s, w)"
    and conns: "u_connections s' = u_connections s @ [c]" "u_fd c = d"
    and act: "active_connections (u_stats s') = active_connections (u_stats s) + 1"
    and peak: "u_peak_connections (u_stats s') =
                 (if active_connections (u_stats s) + 1 > u_peak_connections (u_stats s)
                  then active_connections (u_stats s) + 1
                  else u_peak_connections (u_stats s))"
    and int: "epoll_interest w' = (epoll_interest w)(d \<mapsto> Some (length (u_connections s)))"
  shows "ultra_inv (s', w')"
proof -
  let ?a = "active_connections (u_stats s)" and ?p = "u_peak_connections (u_stats s)"
  from inv have fin: "finite (dom (epoll_interest w))"
    and tags: "\<And>d i. epoll_interest w d = Some (Some i) \<Longrightarrow>
                  i < length (u_connections s) \<and> u_fd (u_connections s ! i) = d"
    and cnt: "?p = - 1 \<or> (card (clients w) \<le> unat ?a \<and> ?a \<le> ?p)"
    by (auto simp: ultra_inv_def)
  have fin': "finite (dom (epoll_interest w'))" using fin by (simp add: int)
  have tags': "i < length (u_connections s') \<and> u_fd (u_connections s' ! i) = d'"
    if "epoll_interest w' d' = Some (Some i)" for d' i
  proof (cases "d' = d")
    case True
    with that have "i = length (u_connections s)" by (simp add: int)
    then show ?thesis using conns True by simp
  next
    case False
    with that have "epoll_interest w d' = Some (Some i)" by (simp add: int)
    from tags[OF this] show ?thesis by (simp add: conns nth_append)
  qed
  have cl: "clients w' = insert d (clients w)"
    by (auto simp: clients_def int)
  have cnt': "u_peak_connections (u_stats s') = - 1
        \<or> (card (clients w') \<le> unat (active_connections (u_stats s'))
           \<and> active_connections (u_stats s') \<le> u_peak_connections (u_stats s'))"
  proof (cases "?p = - 1")
    case True
    then have "\<not> ?a + 1 > ?p" by simp
    with True show ?thesis by (simp add: peak)
  next
    case False
    with cnt have c: "card (clients w) \<le> unat ?a" and le: "?a \<le> ?p" by simp_all
    from le False have "?a \<noteq> - 1" by (rule below_max_u64)
    then have u: "unat (?a + 1) = Suc (unat ?a)" by (rule unat_succ_u64)
    have "card (clients w') \<le> Suc (card (clients w))"
      unfolding cl by (rule card_insert_le_m1) simp_all
    with c u have "card (clients w') \<le> unat (active_connections (u_stats s'))"
      by (simp add: act)
    moreover have "active_connections (u_stats s') \<le> u_peak_connections (u_stats s')"
      by (simp add: act peak not_less)
    ultimately show ?thesis by simp
  qed
  from fin' tags' cnt' show ?thesis by (simp add: ultra_inv_def)
qed

lemma count_connection_eq:
  "count_connection st =
     st\<lparr>active_connections := active_connections st + 1,
        u_peak_connections :=
          (if active_connections st + 1 > u_peak_connections st
           then active_connections st + 1 else u_peak_connections st)\<rparr>"
  by (simp add: count_connection_def raise_peak_def fetch_add_active_def Let_def)

lemma ultra_accept_inv:
  "ultra_inv (s, w) \<Longrightarrow> ultra_inv (accept_state (ultra_accept_connections pending (s, w)))"
proof (induction pending arbitrary: s w)
  case Nil
  then show ?case by (simp add: accept_state_def)
next
  case (Cons r pending)
  show ?case
  proof (cases r)
    case (Accept_error e)
    with Cons.prems show ?thesis by (simp add: accept_state_def)
  next
    case (Accept_ok a)
    let ?w1 = "w\<lparr>open_fds := insert (a_fd a) (open_fds w), reads := Suc (reads w)\<rparr>"
    let ?w0 = "w\<lparr>open_fds := insert (a_fd a) (open_fds w)\<rparr>"
    let ?s1 = "s\<lparr>connection_count := connection_count s + 1\<rparr>"
    have w1: "ultra_inv (?s1, ?w1)" and w0: "ultra_inv (s, ?w0)"
      using Cons.prems by (auto intro: ultra_inv_cong)
    show ?thesis
    proof (cases "admissible a")
      case True
      let ?c = "UltraConnection\<lparr>u_fd := a_fd a, u_addr := a_addr a,
                                     u_last_heartbeat := clock w (reads w),
                                     u_client_id := connection_count s,
                                     u_is_authenticated := True\<rparr>"
      let ?s2 = "s\<lparr>connection_count := connection_count s + 1,
                u_connections := u_connections s @ [?c],
                u_stats := count_connection (u_stats s)\<rparr>"
      let ?w2 = "epoll_ctl_add (a_fd a) (Some (length (u_connections s))) ?w1"
      have "ultra_inv (?s2, ?w2)"
        by (rule ultra_inv_admit[OF Cons.prems, where c = ?c and d = "a_fd a"])
           (simp_all add: epoll_ctl_add_def count_connection_eq)
      then show ?thesis
        unfolding Accept_ok ultra_accept_admit[OF True] by (simp add: accept_state_def)
    next
      case False
      show ?thesis
      proof (cases "a_sockopts a \<and> a_nonblocking a")
        case True
        from Cons.IH[OF ultra_inv_os_close[OF w1, of "a_fd a"]]
        show ?thesis
          unfolding Accept_ok ultra_accept_refuse[OF False] if_P[OF True] .
      next
        case f: False
        from Cons.IH[OF ultra_inv_os_close[OF w0, of "a_fd a"]]
        show ?thesis
          unfolding Accept_ok ultra_accept_refuse[OF False] if_not_P[OF f] .
      qed
    qed
  qed
qed

lemma find_connection_exists:
  "i < length cs \<Longrightarrow> u_fd (cs ! i) = d \<Longrightarrow> \<exists>j. find_connection d cs = Some j"
proof (induction cs arbitrary: i)
  case Nil
  then show ?case by simp
next
  case (Cons c cs)
  show ?case
  proof (cases "u_fd c = d")
    case True
    then show ?thesis by simp
  next
    case False
    with Cons.prems obtain k where "i = Suc k" by (cases i) auto
    with Cons.prems have "k < length cs" "u_fd (cs ! k) = d" by simp_all
    from Cons.IH[OF this] False show ?thesis by auto
  qed
qed

lemma ultra_close_inv:
  assumes inv: "ultra_inv (s, w)"
    and d: "d \<in> clients w"
    and j: "j < length (u_connections s)" "u_fd (u_connections s ! j) = d"
  shows "ultra_inv (ultra_close_connection (Some j) (s, w))"
proof -
  let ?a = "active_connections (u_stats s)" and ?p = "u_peak_connections (u_stats s)"
  let ?cs = "(u_connections s)[j := (u_connections s ! j)\<lparr>is_active := False\<rparr>]"
  let ?w = "os_close d (epoll_ctl_del d w)"
  let ?s = "s\<lparr>u_connections := ?cs,
              u_stats := (u_stats s)\<lparr>active_connections := ?a - 1\<rparr>\<rparr>"
  have eq: "ultra_close_connection (Some j) (s, w) = (?s, ?w)"
    by (simp add: ultra_close_connection_def Let_def j)
  from inv have fin: "finite (dom (epoll_interest w))"
    and tags: "\<And>d i. epoll_interest w d = Some (Some i) \<Longrightarrow>
                  i < length (u_connections s) \<and> u_fd (u_connections s ! i) = d"
    and cnt: "?p = - 1 \<or> (card (clients w) \<le> unat ?a \<and> ?a \<le> ?p)"
    by (auto simp: ultra_inv_def)
  have int: "epoll_interest ?w = (epoll_interest w)(d := None)"
    by (simp add: os_close_def epoll_ctl_del_def)
  have fds: "u_fd (?cs ! i) = u_fd (u_connections s ! i)" for i
    by (cases "i = j") (simp_all add: j)
  have tags': "i < length ?cs \<and> u_fd (?cs ! i) = d'"
    if "epoll_interest ?w d' = Some (Some i)" for d' i
  proof -
    from that have "epoll_interest w d' = Some (Some i)"
      by (simp add: int split: if_splits)
    from tags[OF this] show ?thesis by (simp add: fds)
  qed
  have cl: "clients ?w = clients w - {d}"
    by (auto simp: clients_def int)
  have fc: "finite (clients w)" using fin by (rule finite_clients)
  have card: "card (clients ?w) = card (clients w) - 1"
    unfolding cl using d fc by simp
  have pos: "0 < card (clients w)" using d fc by (auto simp: card_gt_0_iff)
  have cnt': "?p = - 1 \<or> (card (clients ?w) \<le> unat (?a - 1) \<and> ?a - 1 \<le> ?p)"
  proof (cases "?p = - 1")
    case True
    then show ?thesis by simp
  next
    case False
    with cnt have c: "card (clients w) \<le> unat ?a" and le: "?a \<le> ?p" by simp_all
    from c pos have "?a \<noteq> 0" by (auto simp: unat_eq_0)
    then have u: "unat (?a - 1) = unat ?a - 1" by (rule unat_pred_u64)
    have "?a - 1 \<le> ?a" using u by (simp add: word_le_nat_alt)
    then have "?a - 1 \<le> ?p" using le by (rule order_trans)
    moreover from c have "card (clients w) - 1 \<le> unat ?a - 1" by (rule diff_le_mono)
    ultimately show ?thesis using u card by simp
  qed
  from fin tags' cnt' show ?thesis
    unfolding eq by (simp add: ultra_inv_def int)
qed

lemma send_response_frame:
  "u_connections (fst (send_response c m (s, w))) = u_connections s
   \<and> u_stats (fst (send_response c m (s, w))) = u_stats s
   \<and> epoll_interest (snd (send_response c m (s, w))) = epoll_interest w"
  by (simp add: send_response_def split: option.splits)

lemma acknowledge_frame:
  "u_connections (fst (acknowledge a m c (s, w))) = u_connections s
   \<and> u_stats (fst (acknowledge a m c (s, w))) = u_stats s
   \<and> epoll_interest (snd (acknowledge a m c (s, w))) = epoll_interest w"
  by (simp add: acknowledge_def get_next_send_buffer_def now_def Let_def send_response_frame)

lemma process_message_frame:
  "u_connections (fst (process_message m c (s, w))) = u_connections s
   \<and> active_connections (u_stats (fst (process_message m c (s, w))))
       = active_connections (u_stats s)
   \<and> u_peak_connections (u_stats (fst (process_message m c (s, w))))
       = u_peak_connections (u_stats s)
   \<and> epoll_interest (snd (process_message m c (s, w))) = epoll_interest w"
  by (simp add: process_message_def process_order_message_def process_market_data_message_def
      Let_def case_prod_beta acknowledge_frame split: option.splits)

lemma ultra_close_peak:
  "u_peak_connections (u_stats (fst (ultra_close_connection c (s, w))))
     = u_peak_connections (u_stats s)"
  by (simp add: ultra_close_connection_def Let_def split: option.splits)

lemma ultra_handle_peak:
  "u_peak_connections (u_stats (fst (fst (ultra_handle_client_events L d incoming (s, w)))))
     = u_peak_connections (u_stats s)"
  by (simp add: ultra_handle_client_events_def get_next_recv_buffer_def Let_def now_def
      update_stats_def ultra_close_peak process_message_frame
      split: option.splits list.splits recv_result.splits)

lemma ultra_handle_inv:
  assumes inv: "ultra_inv (s, w)" and reg: "epoll_interest w d = Some (Some i)"
  shows "ultra_inv (fst (ultra_handle_client_events L d incoming (s, w)))"
proof -
  from inv reg have i: "i < length (u_connections s)" "u_fd (u_connections s ! i) = d"
    by (auto simp: ultra_inv_def)
  from find_connection_exists[OF i] obtain j where f: "find_connection d (u_connections s) = Some j"
    by blast
  from find_connection_Some[OF f] have j: "j < length (u_connections s)" "u_fd (u_connections s ! j) = d"
    by simp_all
  from reg have d: "d \<in> clients w" by (auto simp: clients_def)
  let ?s1 = "s\<lparr>recv_buffer_index := recv_buffer_index s + 1\<rparr>"
  have inv1: "ultra_inv (?s1, w)" using inv by (rule ultra_inv_cong) simp_all
  have close: "ultra_inv (ultra_close_connection (Some j) (?s1, w))"
    using inv1 d by (rule ultra_close_inv) (simp_all add: j)
  show ?thesis
  proof (cases incoming)
    case Nil
    with f inv1 show ?thesis
      by (simp add: ultra_handle_client_events_def get_next_recv_buffer_def Let_def)
  next
    case (Cons r rest)
    show ?thesis
    proof (cases r)
      case (Recv_error e)
      with Cons f inv1 close show ?thesis
        by (simp add: ultra_handle_client_events_def get_next_recv_buffer_def Let_def)
    next
      case Recv_eof
      with Cons f close show ?thesis
        by (simp add: ultra_handle_client_events_def get_next_recv_buffer_def Let_def)
    next
      case (Recv_data n m)
      let ?slot = "unat (recv_buffer_index s) mod buffer_slots"
      let ?s2 = "?s1\<lparr>recv_buffer := (recv_buffer ?s1)[?slot := m]\<rparr>"
      have inv2: "ultra_inv (?s2, w)" using inv by (rule ultra_inv_cong) simp_all
      show ?thesis
      proof (cases "n < sizeof_UltraMessage L")
        case True
        with Recv_data Cons f inv2 show ?thesis
          by (simp add: ultra_handle_client_events_def get_next_recv_buffer_def Let_def)
      next
        case False
        let ?s3 = "update_stats (clock w (reads w) - u_timestamp m) ?s2"
        let ?w1 = "w\<lparr>reads := Suc (reads w)\<rparr>"
        let ?st = "process_message (Some ?slot) (Some j) (?s3, ?w1)"
        have "ultra_inv (fst ?st, snd ?st)"
          using inv
          by (rule ultra_inv_cong) (simp_all add: process_message_frame update_stats_def Let_def)
        with False Recv_data Cons f show ?thesis
          by (simp add: ultra_handle_client_events_def get_next_recv_buffer_def Let_def now_def)
      qed
    qed
  qed
qed

lemma ultra_inv_close_epoll:
  assumes "ultra_inv (s, w)"
  shows "ultra_inv (s, close_epoll d w)"
proof -
  have c: "clients (close_epoll d w) = {}"
    by (simp add: clients_def close_epoll_def)
  have i: "epoll_interest (close_epoll d w) = Map.empty"
    by (simp add: close_epoll_def)
  from assms have "u_peak_connections (u_stats s) = - 1
      \<or> active_connections (u_stats s) \<le> u_peak_connections (u_stats s)"
    unfolding ultra_inv_def by blast
  then show ?thesis
    unfolding ultra_inv_def by (simp add: c i)
qed

lemma join_threads_interest: "epoll_interest (join_threads ts w) = epoll_interest w"
  unfolding join_threads_def by (induction ts arbitrary: w) (simp_all add: join_def)

lemma ultra_stop_eq:
  assumes "u_running s"
  shows "ultra_stop (s, w) =
    (s\<lparr>u_running := False, u_worker_threads := [],
       u_epoll_fd := (if 0 \<le> sint (u_epoll_fd s) then - 1 else u_epoll_fd s),
       u_server_socket := (if 0 \<le> sint (u_server_socket s) then - 1 else u_server_socket s)\<rparr>,
     (if 0 \<le> sint (u_server_socket s) then os_close (u_server_socket s) else id)
       ((if 0 \<le> sint (u_epoll_fd s) then close_epoll (u_epoll_fd s) else id)
          (join_threads (u_worker_threads s) w)))"
  using assms by (simp add: ultra_stop_def Let_def)

lemma ultra_stop_inv:
  assumes "ultra_inv (s, w)"
  shows "ultra_inv (ultra_stop (s, w))"
proof (cases "u_running s")
  case False
  with assms show ?thesis by (simp add: ultra_stop_def)
next
  case True
  let ?w1 = "join_threads (u_worker_threads s) w"
  let ?w3 = "(if 0 \<le> sint (u_epoll_fd s) then close_epoll (u_epoll_fd s) else id) ?w1"
  let ?w4 = "(if 0 \<le> sint (u_server_socket s) then os_close (u_server_socket s) else id) ?w3"
  have a: "ultra_inv (s, ?w1)"
    using assms by (rule ultra_inv_cong) (simp_all add: join_threads_interest)
  have b: "ultra_inv (s, ?w3)"
    using a by (simp add: ultra_inv_close_epoll)
  have c: "ultra_inv (s, ?w4)"
    using b by (simp add: ultra_inv_os_close)
  show ?thesis
    unfolding ultra_stop_eq[OF True]
    by (rule ultra_inv_cong[OF c]) simp_all
qed

lemma last_state_accept:
  "last_state (case r of Inl killed \<Rightarrow> Inl killed | Inr (st, rest) \<Rightarrow> Inr st) = accept_state r"
  by (auto simp: last_state_def accept_state_def split: sum.splits prod.splits)

lemma last_state_Inr: "last_state (Inr st) = st"
  by (simp add: last_state_def)

lemma ultra_worker_event_inv:
  assumes "ultra_inv (s, w)"
  shows "ultra_inv (last_state (ultra_worker_event L d pending incoming (s, w)))"
proof (cases "epoll_interest w d")
  case None
  with assms show ?thesis by (simp add: ultra_worker_event_def last_state_Inr)
next
  case (Some tag)
  show ?thesis
  proof (cases tag)
    case None
    with Some ultra_accept_inv[OF assms, of pending] show ?thesis
      by (simp add: ultra_worker_event_def last_state_accept)
  next
    case (Some i)
    with \<open>epoll_interest w d = Some tag\<close> have reg: "epoll_interest w d = Some (Some i)" by simp
    with assms have "u_fd (u_connections s ! i) = d" by (auto simp: ultra_inv_def)
    with reg ultra_handle_inv[OF assms reg, of L incoming] assms show ?thesis
      by (simp add: ultra_worker_event_def last_state_Inr)
  qed
qed

lemma ultra_handle_event_inv:
  "ultra_inv st \<Longrightarrow> ultra_inv (last_state (ultra_handle_event L ev st))"
  by (cases ev; cases st) (simp_all add: ultra_worker_event_inv ultra_stop_inv last_state_Inr)

lemma ultra_events_inv: "ultra_inv st \<Longrightarrow> ultra_inv (last_state (ultra_events L evs st))"
proof (induction evs arbitrary: st)
  case Nil
  then show ?case by (simp add: last_state_Inr)
next
  case (Cons ev evs)
  from Cons.prems have h: "ultra_inv (last_state (ultra_handle_event L ev st))"
    by (rule ultra_handle_event_inv)
  show ?case
  proof (cases "ultra_handle_event L ev st")
    case (Inl killed)
    with h show ?thesis by simp
  next
    case (Inr st')
    with h have "ultra_inv st'" by (simp add: last_state_Inr)
    from Cons.IH[OF this] Inr show ?thesis by simp
  qed
qed

lemma ultra_fresh_inv: "ultra_fresh st \<Longrightarrow> ultra_inv st"
proof -
  assume f: "ultra_fresh st"
  obtain s w where st: "st = (s, w)" by (cases st)
  from f have "clients w = {}" by (auto simp: ultra_fresh_def clients_def st)
  with f show ?thesis by (auto simp: ultra_fresh_def ultra_inv_def st)
qed

lemma ultra_inv_peak:
  "ultra_inv (s, w) \<Longrightarrow> active_connections (u_stats s) \<le> u_peak_connections (u_stats s)"
  by (auto simp: ultra_inv_def)

lemma ultra_accept_peak:
  "u_peak_connections (u_stats s)
     \<le> u_peak_connections
          (u_stats (fst (accept_state (ultra_accept_connections pending (s, w)))))"
proof (induction pending arbitrary: s w)
  case Nil
  show ?case by (simp add: accept_state_def)
next
  case (Cons r pending)
  show ?case
  proof (cases r)
    case (Accept_error e)
    then show ?thesis by (simp add: accept_state_def)
  next
    case (Accept_ok a)
    show ?thesis
    proof (cases "admissible a")
      case True
      show ?thesis
        unfolding Accept_ok ultra_accept_admit[OF True]
        by (simp add: accept_state_def count_connection_eq less_imp_le)
    next
      case False
      obtain s' w' where step: "ultra_accept_connections (Accept_ok a # pending) (s, w)
          = ultra_accept_connections pending (s', w')"
        and eq: "u_stats s' = u_stats s"
      proof (cases "a_sockopts a \<and> a_nonblocking a")
        case True
        show ?thesis
          by (rule that[OF ultra_accept_refuse[OF False, of pending s w, unfolded if_P[OF True]]])
             simp
      next
        case f: False
        show ?thesis
          by (rule that[OF ultra_accept_refuse[OF False, of pending s w, unfolded if_not_P[OF f]]])
             simp
      qed
      from Cons.IH[of s' w'] show ?thesis
        unfolding Accept_ok step eq .
    qed
  qed
qed

lemma ultra_stop_peak:
  "u_peak_connections (u_stats (fst (ultra_stop (s, w)))) = u_peak_connections (u_stats s)"
  by (cases "u_running s") (simp_all add: ultra_stop_eq, simp add: ultra_stop_def)

lemma ultra_handle_event_peak:
  "u_peak_connections (u_stats (fst st))
     \<le> u_peak_connections (u_stats (fst (last_state (ultra_handle_event L ev st))))"
proof -
  obtain s w where st: "st = (s, w)" by (cases st)
  show ?thesis
  proof (cases ev)
    case (Ultra_ready d pending incoming)
    then show ?thesis
      by (simp add: st ultra_worker_event_def ultra_accept_peak ultra_handle_peak
          last_state_accept last_state_Inr split: option.splits)
  next
    case Ultra_stop
    then show ?thesis by (simp add: st ultra_stop_peak last_state_Inr)
  qed
qed

lemma ultra_events_peak:
  "u_peak_connections (u_stats (fst st))
     \<le> u_peak_connections (u_stats (fst (last_state (ultra_events L evs st))))"
proof (induction evs arbitrary: st)
  case Nil
  show ?case by (simp add: last_state_Inr)
next
  case (Cons ev evs)
  have h: "u_peak_connections (u_stats (fst st))
     \<le> u_peak_connections (u_stats (fst (last_state (ultra_handle_event L ev st))))"
    by (rule ultra_handle_event_peak)
  show ?case
  proof (cases "ultra_handle_event L ev st")
    case (Inl killed)
    with h show ?thesis by simp
  next
    case (Inr st')
    with h have "u_peak_connections (u_stats (fst st)) \<le> u_peak_connections (u_stats (fst st'))"
      by (simp add: last_state_Inr)
    then have "u_peak_connections (u_stats (fst st))
       \<le> u_peak_connections (u_stats (fst (last_state (ultra_events L evs st'))))"
      using Cons.IH[of st'] by (rule order_trans)
    with Inr show ?thesis by simp
  qed
qed

lemma distinct_fds_bound:
  fixes ks :: "c_int list"
  assumes "distinct ks"
  shows "length ks \<le> 2 ^ 32"
proof -
  have "length ks = card (set ks)" using assms by (simp add: distinct_card)
  also have "\<dots> \<le> card (UNIV :: c_int set)" by (intro card_mono) simp_all
  also have "\<dots> = 2 ^ 32" by (simp add: card_word)
  finally show ?thesis .
qed

lemma of_nat_le_u64:
  assumes "n \<le> m" "m \<le> 2 ^ 32"
  shows "(of_nat n :: u64) \<le> of_nat m"
proof -
  have "m < 2 ^ 64" using assms(2) by (rule le_less_trans) simp
  with assms(1) have "n < 2 ^ 64" by simp
  with \<open>m < 2 ^ 64\<close> assms(1) show ?thesis
    by (simp add: word_le_nat_alt unat_of_nat)
qed

lemma hft_inv_shorter:
  assumes inv: "hft_inv (s, w)"
    and d: "distinct (map fst (connections s'))"
    and l: "length (connections s') \<le> length (connections s)"
    and p: "peak_connections (stats s') = peak_connections (stats s)"
  shows "hft_inv (s', w')"
proof -
  from inv have "distinct (map fst (connections s))"
    and le: "of_nat (length (connections s)) \<le> peak_connections (stats s)"
    by (simp_all add: hft_inv_def)
  then have "length (connections s) \<le> 2 ^ 32"
    using distinct_fds_bound[of "map fst (connections s)"] by simp
  with l have "(of_nat (length (connections s')) :: u64) \<le> of_nat (length (connections s))"
    by (rule of_nat_le_u64)
  then have "of_nat (length (connections s')) \<le> peak_connections (stats s)"
    using le by (rule order_trans)
  with d p show ?thesis by (simp add: hft_inv_def)
qed

lemma update_present_keys:
  "map_of al k = Some v \<Longrightarrow> map fst (AList.update k v' al) = map fst al"
  by (induction al) auto

lemma hft_accept_inv:
  assumes "hft_inv (s, w)"
  shows "hft_inv (fst (hft_accept_connections pending (s, w)))"
proof (cases pending)
  case Nil
  with assms show ?thesis by (simp add: hft_accept_connections_def)
next
  case (Cons r rest)
  show ?thesis
  proof (cases r)
    case (Accept_error e)
    with Cons assms show ?thesis by (simp add: hft_accept_connections_def)
  next
    case (Accept_ok a)
    from assms have d: "distinct (map fst (connections s))" by (simp add: hft_inv_def)
    show ?thesis
    proof (cases "a_epoll_add a")
      case False
      with Accept_ok Cons assms show ?thesis
        by (simp add: hft_accept_connections_def now_def Let_def hft_inv_def)
    next
      case True
      with Accept_ok Cons d show ?thesis
        by (simp add: hft_accept_connections_def now_def Let_def hft_inv_def distinct_update)
    qed
  qed
qed

lemma hft_accept_peak:
  "peak_connections (stats s)
     \<le> peak_connections (stats (fst (fst (hft_accept_connections pending (s, w)))))"
  by (auto simp: hft_accept_connections_def now_def Let_def
      split: list.splits accept_result.splits)

lemma with_conn_eq:
  assumes "map_of (connections s) client_fd = Some c"
    and "process_client_message ema msg c (s, w) = (c1, s1, w1)"
  shows "with_conn client_fd (process_client_message ema msg) (s, w)
         = (s1\<lparr>connections := AList.update client_fd c1 (connections s)\<rparr>, w1)"
proof -
  from process_client_message_shape[OF assms(2)] have "connections s1 = connections s"
    by blast
  with assms show ?thesis by (simp add: with_conn_def)
qed

lemma with_conn_peak:
  "peak_connections (stats (fst (with_conn client_fd (process_client_message ema msg) (s, w))))
     = peak_connections (stats s)"
proof (cases "map_of (connections s) client_fd")
  case None
  then show ?thesis by (simp add: with_conn_def)
next
  case (Some c)
  obtain c1 s1 w1 where p: "process_client_message ema msg c (s, w) = (c1, s1, w1)"
    by (cases "process_client_message ema msg c (s, w)")
  from process_client_message_shape[OF p]
  have "peak_connections (stats s1) = peak_connections (stats s)" by blast
  then show ?thesis by (simp add: with_conn_eq[OF Some p])
qed

lemma with_conn_inv:
  assumes "hft_inv (s, w)"
  shows "hft_inv (with_conn client_fd (process_client_message ema msg) (s, w))"
proof (cases "map_of (connections s) client_fd")
  case None
  with assms show ?thesis by (simp add: with_conn_def)
next
  case (Some c)
  obtain c1 s1 w1 where p: "process_client_message ema msg c (s, w) = (c1, s1, w1)"
    by (cases "process_client_message ema msg c (s, w)")
  from process_client_message_shape[OF p]
  have pk: "peak_connections (stats s1) = peak_connections (stats s)" by blast
  let ?s' = "s1\<lparr>connections := AList.update client_fd c1 (connections s)\<rparr>"
  have k: "map fst (connections ?s') = map fst (connections s)"
    using Some by (simp add: update_present_keys)
  have "length (map fst (connections ?s')) = length (map fst (connections s))"
    by (simp only: k)
  then have l: "length (connections ?s') \<le> length (connections s)"
    by (simp only: length_map)
  from assms have "distinct (map fst (connections s))" by (simp add: hft_inv_def)
  then have d: "distinct (map fst (connections ?s'))" by (simp only: k)
  have pk': "peak_connections (stats ?s') = peak_connections (stats s)"
    using pk by simp
  have "hft_inv (?s', w1)"
    using assms d l pk' by (rule hft_inv_shorter)
  then show ?thesis by (simp only: with_conn_eq[OF Some p])
qed

lemma hft_dispatch_peak:
  "peak_connections (stats (fst (hft_dispatch L ema client_fd n msg (s, w))))
     = peak_connections (stats s)"
  by (simp add: hft_dispatch_def process_client_message_order_def
      process_client_message_market_data_def with_conn_peak)

lemma hft_dispatch_inv:
  assumes "hft_inv (s, w)"
  shows "hft_inv (hft_dispatch L ema client_fd n msg (s, w))"
  using assms with_conn_inv[OF assms, of client_fd ema msg]
  by (simp add: hft_dispatch_def process_client_message_order_def
      process_client_message_market_data_def)

lemma hft_close_peak:
  "peak_connections (stats (fst (hft_close_connection conn (s, w))))
     = peak_connections (stats s)"
  by (simp add: hft_close_connection_def)

lemma hft_close_inv:
  assumes "hft_inv (s, w)"
  shows "hft_inv (hft_close_connection conn (s, w))"
proof -
  let ?s' = "s\<lparr>connections := AList.delete (fd conn) (connections s)\<rparr>"
  from assms have "distinct (map fst (connections s))" by (simp add: hft_inv_def)
  then have "distinct (map fst (AList.delete (fd conn) (connections s)))"
    by (rule distinct_delete)
  then have d: "distinct (map fst (connections ?s'))" by simp
  have l: "length (connections ?s') \<le> length (connections s)"
    by (simp add: length_delete_le)
  have p: "peak_connections (stats ?s') = peak_connections (stats s)" by simp
  have "hft_inv (?s', os_close (fd conn) (epoll_ctl_del (fd conn) w))"
    using assms d l p by (rule hft_inv_shorter)
  then show ?thesis by (simp add: hft_close_connection_def)
qed

lemma hft_recv_loop_peak:
  "peak_connections (stats (fst (fst (hft_recv_loop L ema client_fd incoming (s, w)))))
     = peak_connections (stats s)"
proof (induction incoming arbitrary: s w)
  case Nil
  show ?case by simp
next
  case (Cons r incoming)
  show ?case
  proof (cases r)
    case (Recv_error e)
    then show ?thesis by simp
  next
    case Recv_eof
    then show ?thesis by (simp add: hft_close_peak split: option.splits)
  next
    case (Recv_data n msg)
    obtain s' w' where d: "hft_dispatch L ema client_fd n msg (s, w) = (s', w')"
      by (cases "hft_dispatch L ema client_fd n msg (s, w)")
    with hft_dispatch_peak[of L ema client_fd n msg s w]
    have "peak_connections (stats s') = peak_connections (stats s)" by simp
    with Cons.IH[of s' w'] d Recv_data show ?thesis by simp
  qed
qed

lemma hft_recv_loop_inv:
  assumes "hft_inv (s, w)"
  shows "hft_inv (fst (hft_recv_loop L ema client_fd incoming (s, w)))"
  using assms
proof (induction incoming arbitrary: s w)
  case Nil
  then show ?case by simp
next
  case (Cons r incoming)
  show ?case
  proof (cases r)
    case (Recv_error e)
    with Cons.prems show ?thesis by simp
  next
    case Recv_eof
    with Cons.prems hft_close_inv[OF Cons.prems] show ?thesis
      by (simp split: option.splits)
  next
    case (Recv_data n msg)
    obtain s' w' where d: "hft_dispatch L ema client_fd n msg (s, w) = (s', w')"
      by (cases "hft_dispatch L ema client_fd n msg (s, w)")
    with hft_dispatch_inv[OF Cons.prems, of L ema client_fd n msg]
    have "hft_inv (s', w')" by simp
    with Cons.IH[of s' w'] d Recv_data show ?thesis by simp
  qed
qed

lemma hft_handle_peak:
  "peak_connections (stats (fst (fst (hft_handle_client_events L ema client_fd incoming (s, w)))))
     = peak_connections (stats s)"
  by (simp add: hft_handle_client_events_def hft_recv_loop_peak split: option.splits)

lemma hft_handle_inv:
  assumes "hft_inv (s, w)"
  shows "hft_inv (fst (hft_handle_client_events L ema client_fd incoming (s, w)))"
  using assms hft_recv_loop_inv[OF assms, of L ema client_fd incoming]
  by (simp add: hft_handle_client_events_def split: option.splits)

lemma hft_stop_inv:
  assumes "hft_inv (s, w)"
  shows "hft_inv (hft_stop (s, w))"
proof (cases "running s")
  case False
  with assms show ?thesis by (simp add: hft_stop_stopped)
next
  case True
  obtain s' w' where st: "hft_stop (s, w) = (s', w')" by (cases "hft_stop (s, w)")
  with hft_stop_running[OF True, of w] have "connections s' = []" by simp
  then have "hft_inv (s', w')" by (simp add: hft_inv_def)
  with st show ?thesis by simp
qed

lemma hft_stop_peak:
  "peak_connections (stats (fst (hft_stop (s, w)))) = peak_connections (stats s)"
proof (cases "running s")
  case False
  then show ?thesis by (simp add: hft_stop_stopped)
next
  case True
  from hft_stop_running[OF True, of w] show ?thesis by simp
qed

lemma hft_handle_event_inv:
  "hft_inv st \<Longrightarrow> hft_inv (hft_handle_event L ema ev st)"
  by (cases ev; cases st) (simp_all add: hft_accept_inv hft_handle_inv hft_stop_inv)

lemma hft_handle_event_peak:
  "peak_connections (stats (fst st))
     \<le> peak_connections (stats (fst (hft_handle_event L ema ev st)))"
  by (cases ev; cases st) (simp_all add: hft_accept_peak hft_handle_peak hft_stop_peak)

lemma hft_events_inv: "hft_inv st \<Longrightarrow> hft_inv (hft_events L ema evs st)"
  unfolding hft_events_def
  by (induction evs arbitrary: st) (simp_all add: hft_handle_event_inv)

lemma hft_events_peak:
  "peak_connections (stats (fst st))
     \<le> peak_connections (stats (fst (hft_events L ema evs st)))"
  unfolding hft_events_def
proof (induction evs arbitrary: st)
  case Nil
  show ?case by simp
next
  case (Cons ev evs)
  from hft_handle_event_peak[of st L ema ev] Cons.IH[of "hft_handle_event L ema ev st"]
  have "peak_connections (stats (fst st))
     \<le> peak_connections
         (stats (fst (fold (hft_handle_event L ema) evs (hft_handle_event L ema ev st))))"
    by (rule order_trans)
  then show ?case by simp
qed

lemma fetch_add_active_eq:
  "active_connections (fetch_add_active st) = active_connections st + 1
   \<and> u_peak_connections (fetch_add_active st) = u_peak_connections st"
  by (simp add: fetch_add_active_def)

lemma raise_peak_eq:
  "active_connections (raise_peak a st) = active_connections st
   \<and> u_peak_connections st \<le> u_peak_connections (raise_peak a st)
   \<and> a \<le> u_peak_connections (raise_peak a st)"
  by (simp add: raise_peak_def Let_def not_less less_imp_le)

lemma count_connection_peak:
  "active_connections (count_connection st) \<le> u_peak_connections (count_connection st)"
  by (simp add: count_connection_eq not_less)

text \<open>
  C7 (as amended). \<^verbatim>\<open>peak_connections\<close> is monotonically non-decreasing: no event and
  no atomic operation of the accept routine lowers it. When the events (the readiness
  events that a worker handles, the calls of the accept and service routines of
  HFTServer, the calls of \<open>stop\<close>) are handled one at a time, \<^verbatim>\<open>peak_connections\<close> is at
  least the number of active connections after each of them: in UltraHFTServer
  \<^verbatim>\<open>active_connections\<close>, in every state reached from a server without connections, and
  from any state in which the pointers registered with the reactor are connections of
  the vector and \<^verbatim>\<open>active_connections\<close> is at least the number of registered connections
  and at most \<^verbatim>\<open>peak_connections\<close>; in HFTServer the size of the connection table, in
  every state reached from a server with an empty table. Within the accept routine of
  UltraHFTServer \<^verbatim>\<open>active_connections\<close> is incremented first, and
  \<^verbatim>\<open>peak_connections\<close> keeps its value until the routine raises it to the new count when
  that is larger; from then on \<^verbatim>\<open>peak_connections\<close> is at least \<^verbatim>\<open>active_connections\<close>
  again.
\<close>

theorem peak_connections_bounds:
  "(ultra_fresh (fs, fw) \<longrightarrow>
      active_connections (u_stats (fst (last_state (ultra_events L fevs (fs, fw)))))
        \<le> u_peak_connections (u_stats (fst (last_state (ultra_events L fevs (fs, fw))))))
   \<and> (ultra_inv (us, uw) \<longrightarrow>
      active_connections (u_stats (fst (last_state (ultra_events L evs (us, uw)))))
        \<le> u_peak_connections (u_stats (fst (last_state (ultra_events L evs (us, uw))))))
   \<and> u_peak_connections (u_stats us)
        \<le> u_peak_connections (u_stats (fst (last_state (ultra_events L evs (us, uw)))))
   \<and> active_connections (fetch_add_active st) = active_connections st + 1
   \<and> u_peak_connections (fetch_add_active st) = u_peak_connections st
   \<and> u_peak_connections st \<le> u_peak_connections (raise_peak a st)
   \<and> active_connections (count_connection st) \<le> u_peak_connections (count_connection st)
   \<and> (connections s = [] \<longrightarrow>
      of_nat (length (connections (fst (hft_events L ema hevs (s, w)))))
        \<le> peak_connections (stats (fst (hft_events L ema hevs (s, w)))))
   \<and> peak_connections (stats s)
        \<le> peak_connections (stats (fst (hft_events L ema hevs (s, w))))"
proof -
  have a: "active_connections (u_stats (fst (last_state (ultra_events L es st))))
        \<le> u_peak_connections (u_stats (fst (last_state (ultra_events L es st))))"
    if "ultra_inv st" for es st
  proof -
    from that have "ultra_inv (last_state (ultra_events L es st))"
      by (rule ultra_events_inv)
    then show ?thesis
      by (cases "last_state (ultra_events L es st)") (simp add: ultra_inv_peak)
  qed
  have b: "of_nat (length (connections (fst (hft_events L ema hevs (s, w)))))
        \<le> peak_connections (stats (fst (hft_events L ema hevs (s, w))))"
    if "connections s = []"
  proof -
    from that have "hft_inv (s, w)" by (simp add: hft_inv_def)
    then have "hft_inv (hft_events L ema hevs (s, w))" by (rule hft_events_inv)
    then show ?thesis
      by (cases "hft_events L ema hevs (s, w)") (simp add: hft_inv_def)
  qed
  from a[of "(us, uw)" evs] a[OF ultra_fresh_inv, of "(fs, fw)" fevs] b
    ultra_events_peak[of "(us, uw)" L evs] hft_events_peak[of "(s, w)" L ema hevs]
    fetch_add_active_eq[of st] raise_peak_eq[of a st] count_connection_peak[of st]
  show ?thesis by simp
qed

lemma ultra_fresh_initialized: "ultra_fresh (ultra_initialized, os_initialized)"
  by (simp add: ultra_fresh_def ultra_initialized_def os_initialized_def)

lemma clients_os_demo: "clients os_demo = {5}"
  by (auto simp: clients_def os_demo_def split: if_splits)

lemma ultra_inv_demo: "ultra_inv (ultra_demo, os_demo)"
proof -
  have "finite (dom (epoll_interest os_demo))" by (simp add: os_demo_def)
  moreover have "\<forall>d i. epoll_interest os_demo d = Some (Some i) \<longrightarrow>
      i < length (u_connections ultra_demo) \<and> u_fd (u_connections ultra_demo ! i) = d"
    by (auto simp: os_demo_def ultra_demo_def split: if_splits)
  moreover have "card (clients os_demo) \<le> unat (active_connections (u_stats ultra_demo))"
    by (simp add: clients_os_demo ultra_demo_def)
  moreover have "active_connections (u_stats ultra_demo) \<le> u_peak_connections (u_stats ultra_demo)"
    by (simp add: ultra_demo_def)
  ultimately show ?thesis by (simp add: ultra_inv_def)
qed

lemma ultra_accept_demo_run:
  "ultra_events layout_demo ultra_accept_events_demo (ultra_initialized, os_initialized)
     = Inl (Null_dereference,
            last_state (ultra_events layout_demo ultra_accept_events_demo
                          (ultra_initialized, os_initialized)))
   \<and> active_connections (u_stats (fst (last_state
        (ultra_events layout_demo ultra_accept_events_demo
           (ultra_initialized, os_initialized))))) = 1
   \<and> u_peak_connections (u_stats (fst (last_state
        (ultra_events layout_demo ultra_accept_events_demo
           (ultra_initialized, os_initialized))))) = 1"
  by (simp add: ultra_accept_events_demo_def ultra_worker_event_def last_state_def
      ultra_initialized_def os_initialized_def ultra_demo_def accepted_demo_def
      refused_demo_def now_def Let_def epoll_ctl_add_def os_close_def
      UltraConnection_def count_connection_eq)

lemma ultra_demo_run:
  "active_connections (u_stats (fst (last_state
        (ultra_events layout_demo ultra_events_demo (ultra_demo, os_demo))))) = 0
   \<and> u_peak_connections (u_stats (fst (last_state
        (ultra_events layout_demo ultra_events_demo (ultra_demo, os_demo))))) = 1"
  by (simp add: ultra_events_demo_def ultra_worker_event_def last_state_def
      os_demo_def ultra_demo_def accepted_demo_def refused_demo_def
      now_def Let_def epoll_ctl_add_def epoll_ctl_del_def os_close_def
      UltraConnection_def ultra_handle_client_events_def get_next_recv_buffer_def
      ultra_close_connection_def ultra_stop_def join_threads_def join_def close_epoll_def)

lemma hft_demo_run:
  "length (connections (fst (hft_events layout_demo ema_demo hft_events_demo
                                       (hft_started, os_initialized)))) = 1
   \<and> peak_connections (stats (fst (hft_events layout_demo ema_demo hft_events_demo
                                       (hft_started, os_initialized)))) = 2"
  by (simp add: hft_events_def hft_events_demo_def hft_accept_connections_def
      hft_started_def hft_initialized_def os_initialized_def accepted_demo_def
      now_def Let_def epoll_ctl_add_def epoll_ctl_del_def os_close_def
      Connection_def hft_handle_client_events_def hft_close_connection_def)

theorem peak_connections_bounds_witness:
  "ultra_fresh (ultra_initialized, os_initialized) \<and> ultra_inv (ultra_demo, os_demo)
   \<and> connections hft_started = []
   \<and> active_connections (u_stats (fst (last_state
        (ultra_events layout_demo ultra_accept_events_demo
           (ultra_initialized, os_initialized))))) = 1
   \<and> u_peak_connections (u_stats (fst (last_state
        (ultra_events layout_demo ultra_accept_events_demo
           (ultra_initialized, os_initialized))))) = 1
   \<and> active_connections (u_stats (fst (last_state
        (ultra_events layout_demo ultra_accept_events_demo
           (ultra_initialized, os_initialized)))))
       \<le> u_peak_connections (u_stats (fst (last_state
        (ultra_events layout_demo ultra_accept_events_demo
           (ultra_initialized, os_initialized)))))
   \<and> active_connections (u_stats (fst (last_state
        (ultra_events layout_demo ultra_events_demo (ultra_demo, os_demo))))) = 0
   \<and> u_peak_connections (u_stats (fst (last_state
        (ultra_events layout_demo ultra_events_demo (ultra_demo, os_demo))))) = 1
   \<and> active_connections (u_stats (fst (last_state
        (ultra_events layout_demo ultra_events_demo (ultra_demo, os_demo)))))
       \<le> u_peak_connections (u_stats (fst (last_state
        (ultra_events layout_demo ultra_events_demo (ultra_demo, os_demo)))))
   \<and> u_peak_connections (u_stats ultra_demo)
       \<le> u_peak_connections (u_stats (fst (last_state
        (ultra_events layout_demo ultra_events_demo (ultra_demo, os_demo)))))
   \<and> active_connections (count_connection (u_stats ultra_demo))
       \<le> u_peak_connections (count_connection (u_stats ultra_demo))
   \<and> length (connections (fst (hft_events layout_demo ema_demo hft_events_demo
                                       (hft_started, os_initialized)))) = 1
   \<and> peak_connections (stats (fst (hft_events layout_demo ema_demo hft_events_demo
                                       (hft_started, os_initialized)))) = 2
   \<and> of_nat (length (connections (fst (hft_events layout_demo ema_demo hft_events_demo
                                       (hft_started, os_initialized)))))
       \<le> peak_connections (stats (fst (hft_events layout_demo ema_demo hft_events_demo
                                       (hft_started, os_initialized))))"
proof -
  have c: "connections hft_started = []"
    by (simp add: hft_started_def hft_initialized_def)
  from peak_connections_bounds[where fs = ultra_initialized and fw = os_initialized
         and L = layout_demo and fevs = ultra_accept_events_demo
         and us = ultra_demo and uw = os_demo and evs = ultra_events_demo
         and st = "u_stats ultra_demo" and a = 2
         and s = hft_started and ema = ema_demo and hevs = hft_events_demo
         and w = os_initialized]
       ultra_fresh_initialized ultra_inv_demo c ultra_accept_demo_run ultra_demo_run
       hft_demo_run
  show ?thesis by simp
qed

text \<open>
  C7 as stated fails in UltraHFTServer at an observation between the two atomic
  operations of the accept routine. On the server without connections the routine
  admits a connection: after \<^verbatim>\<open>active_connections.fetch_add(1)\<close> the statistics that
  the other threads read show one active connection and a peak of 0, and only the
  exchange that follows raises the peak to 1.
\<close>

theorem ultra_peak_lags_counterexample:
  "u_stats (fst (accept_state (ultra_accept_connections [Accept_ok (accepted_demo 5)]
                                 (ultra_initialized, os_initialized))))
     = raise_peak 1 (fetch_add_active (u_stats ultra_initialized))
   \<and> active_connections (fetch_add_active (u_stats ultra_initialized)) = 1
   \<and> u_peak_connections (fetch_add_active (u_stats ultra_initialized)) = 0
   \<and> \<not> active_connections (fetch_add_active (u_stats ultra_initialized))
         \<le> u_peak_connections (fetch_add_active (u_stats ultra_initialized))"
  by (simp add: accept_state_def count_connection_def fetch_add_active_def Let_def
      ultra_initialized_def os_initialized_def accepted_demo_def now_def)

end
